theory Spec2Isabelle
  imports Main "HOL-Library.Word"
begin

section \<open>Text transforms of final transcripts (AssemblyAITranscriber.ts, lines 24-72)\<close>

text \<open>
  JavaScript strings are modelled as \<^typ>\<open>string\<close>. On the characters a \<^typ>\<open>char\<close>
  can hold (code points 0 to 255) the Unicode property \<open>Sentence_Terminal\<close> holds of
  exactly the full stop, the exclamation mark and the question mark.
\<close>

definition sentence_terminal :: "char \<Rightarrow> bool" where
  "sentence_terminal c = (c = CHR ''.'' \<or> c = CHR ''!'' \<or> c = CHR ''?'')"

definition is_space :: "char \<Rightarrow> bool" where
  "is_space c = (c = CHR '' '')"

text \<open>\<open>text.replace(/^ +| +$/g, '')\<close>: the leading and the trailing run of spaces go.\<close>

definition trimSpaces :: "string \<Rightarrow> string" where
  "trimSpaces text = rev (dropWhile is_space (rev (dropWhile is_space text)))"

text \<open>
  The loop of \<open>stringToSentences\<close> over the matches of \<open>/\p{Sentence_Terminal}/gu\<close>.
  \<open>seg\<close> is \<open>text.slice(lastIndex, i)\<close> for the position \<open>i\<close> the scan has reached;
  at a terminal the slice up to and including it is trimmed and pushed, and at the end of
  the text the remaining slice is pushed when it is not empty after trimming.
\<close>

fun sentences_loop :: "string \<Rightarrow> string \<Rightarrow> string list" where
  "sentences_loop seg [] =
     (let lastSentence = trimSpaces seg in if lastSentence \<noteq> [] then [lastSentence] else [])"
| "sentences_loop seg (c # cs) =
     (if sentence_terminal c then trimSpaces (seg @ [c]) # sentences_loop [] cs
      else sentences_loop (seg @ [c]) cs)"

definition stringToSentences :: "string \<Rightarrow> string list" where
  "stringToSentences text = sentences_loop [] text"

text \<open>
  Case-insensitive comparison of the regular expression's flag \<open>i\<close>. The letters of the
  pattern are n, e, w, l, i and the space; the only other characters that fold to them are
  their ASCII capitals.
\<close>

definition to_lower :: "char \<Rightarrow> char" where
  "to_lower c =
     (case map_of (zip ''ABCDEFGHIJKLMNOPQRSTUVWXYZ'' ''abcdefghijklmnopqrstuvwxyz'') c of
        Some l \<Rightarrow> l
      | None \<Rightarrow> c)"

text \<open>A literal of the pattern matched at the start of the input: the rest, when it matches.\<close>

fun match_literal :: "string \<Rightarrow> string \<Rightarrow> string option" where
  "match_literal [] s = Some s"
| "match_literal (p # ps) [] = None"
| "match_literal (p # ps) (c # cs) = (if to_lower c = p then match_literal ps cs else None)"

definition then_terminal :: "string option \<Rightarrow> bool" where
  "then_terminal r = (case r of Some (c # _) \<Rightarrow> sentence_terminal c | _ \<Rightarrow> False)"

text \<open>
  \<open>/^(new line|newline)\p{Sentence_Terminal}/iu.test(sentence)\<close>: the first alternative,
  and on its failure the second, each followed by one terminal. Nothing anchors the end.
\<close>

definition newline_command_test :: "string \<Rightarrow> bool" where
  "newline_command_test sentence =
     (then_terminal (match_literal ''new line'' sentence) \<or>
      then_terminal (match_literal ''newline'' sentence))"

definition paragraph_break :: string where
  "paragraph_break = [CHR 0x0A, CHR 0x0A]"

text \<open>\<open>Array.prototype.join\<close>.\<close>

fun join :: "string \<Rightarrow> string list \<Rightarrow> string" where
  "join sep [] = []"
| "join sep [x] = x"
| "join sep (x # y # ys) = x @ sep @ join sep (y # ys)"

definition newline_transform :: "string \<Rightarrow> string" where
  "newline_transform text =
     join '' '' (map (\<lambda>sentence. if newline_command_test sentence then paragraph_break else sentence)
       (stringToSentences text))"

definition transforms :: "(string \<Rightarrow> string) list" where
  "transforms = [newline_transform]"

text \<open>\<open>for (const transform of transforms) text = transform(text)\<close>.\<close>

definition apply_transforms :: "string \<Rightarrow> string" where
  "apply_transforms text = fold (\<lambda>transform t. transform t) transforms text"

text \<open>
  The voice command in the specification's words: the whole sentence is, up to case,
  \<open>new line\<close> or \<open>newline\<close> with one terminal punctuation mark after it.
\<close>

definition spoken_newline_command :: "string \<Rightarrow> bool" where
  "spoken_newline_command s =
     (s \<noteq> [] \<and> sentence_terminal (last s) \<and>
      (map to_lower (butlast s) = ''new line'' \<or> map to_lower (butlast s) = ''newline''))"

section \<open>The rewrite request (AssemblyAITranscriber.ts, lines 398-431; main.ts, lines 5-17)\<close>

record DictaphoneSettings =
  assemblyApiKey :: string
  postProcess :: bool
  postProcessPrompt :: string
  finalModel :: string

text \<open>
  JavaScript values as \<open>JSON.parse\<close> yields them, and \<open>undefined\<close> for a property that
  is not there. An object lists each of its keys once.
\<close>

datatype js_value =
    JUndefined
  | JNull
  | JBool bool
  | JNumber int
  | JString string
  | JArray "js_value list"
  | JObject "(string \<times> js_value) list"

datatype exn = TypeError | InvalidStateError | HostError

text \<open>\<open>json.response\<close>: reading a property of \<open>null\<close> or \<open>undefined\<close> throws.\<close>

definition get_property :: "js_value \<Rightarrow> string \<Rightarrow> exn + js_value" where
  "get_property v key =
     (case v of
        JUndefined \<Rightarrow> Inl TypeError
      | JNull \<Rightarrow> Inl TypeError
      | JObject kvs \<Rightarrow> (case map_of kvs key of None \<Rightarrow> Inr JUndefined | Some x \<Rightarrow> Inr x)
      | _ \<Rightarrow> Inr JUndefined)"

text \<open>What \<open>if (!v)\<close> tests.\<close>

definition truthy :: "js_value \<Rightarrow> bool" where
  "truthy v =
     (case v of
        JUndefined \<Rightarrow> False
      | JNull \<Rightarrow> False
      | JBool b \<Rightarrow> b
      | JNumber n \<Rightarrow> n \<noteq> 0
      | JString t \<Rightarrow> t \<noteq> []
      | _ \<Rightarrow> True)"

record http_request =
  url :: string
  http_method :: string
  authorization :: string
  body :: js_value

text \<open>How \<open>request(...)\<close> settles: it rejects, or it resolves to the response body.\<close>

datatype http_response = Rejected | Body string

definition lemur_request :: "string \<Rightarrow> DictaphoneSettings \<Rightarrow> string \<Rightarrow> http_request" where
  "lemur_request key cfg input =
     \<lparr>url = ''https://api.assemblyai.com/lemur/v3/generate/task'',
      http_method = ''post'',
      authorization = key,
      body = JObject [(''final_model'', JString (finalModel cfg)),
                      (''prompt'', JString (postProcessPrompt cfg)),
                      (''temperature'', JNumber 0),
                      (''input_text'', JString input)]\<rparr>"

text \<open>
  \<open>postProcessTranscript\<close> up to its \<open>await\<close>: no request when post-processing is off or
  the prompt is empty, else the request it sends.
\<close>

definition postProcessTranscript_begin ::
  "string \<Rightarrow> DictaphoneSettings \<Rightarrow> string \<Rightarrow> http_request option" where
  "postProcessTranscript_begin key cfg input =
     (if \<not> postProcess cfg \<or> postProcessPrompt cfg = [] then None
      else Some (lemur_request key cfg input))"

text \<open>
  \<open>postProcessTranscript\<close> after the request has settled (lines 422-430). \<open>parse\<close> is
  \<open>JSON.parse\<close>, \<open>None\<close> where it throws. Every exception ends in the \<open>catch\<close>, which
  returns the input. The value of the \<open>response\<close> property is returned as it is.
\<close>

definition postProcessTranscript_settle ::
  "(string \<Rightarrow> js_value option) \<Rightarrow> string \<Rightarrow> http_response \<Rightarrow> js_value" where
  "postProcessTranscript_settle parse input resp =
     (case resp of
        Rejected \<Rightarrow> JString input
      | Body b \<Rightarrow>
          (case parse b of
             None \<Rightarrow> JString input
           | Some json \<Rightarrow>
               (case get_property json ''response'' of
                  Inl e \<Rightarrow> JString input
                | Inr v \<Rightarrow> if \<not> truthy v then JString input else v)))"

text \<open>
  The whole of \<open>postProcessTranscript\<close> against a network \<open>net\<close>: the value the promise
  resolves to, and the requests that were sent.
\<close>

definition postProcessTranscript ::
  "(string \<Rightarrow> js_value option) \<Rightarrow> (http_request \<Rightarrow> http_response) \<Rightarrow> string \<Rightarrow>
   DictaphoneSettings \<Rightarrow> string \<Rightarrow> js_value \<times> http_request list" where
  "postProcessTranscript parse net key cfg input =
     (case postProcessTranscript_begin key cfg input of
        None \<Rightarrow> (JString input, [])
      | Some req \<Rightarrow> (postProcessTranscript_settle parse input (net req), [req]))"

section \<open>Audio re-chunking (Microphone.ts)\<close>

definition SAMPLE_RATE :: nat where
  "SAMPLE_RATE = 16000"

type_synonym sample = "16 word"

text \<open>
  An \<open>Int16Array\<close> is a window on an \<open>ArrayBuffer\<close>: the buffer (kept here as its 16-bit
  elements), the element the window starts at and the number of elements it shows.
\<close>

record Int16Array =
  arr_buffer :: "sample list"
  arr_offset :: nat
  arr_length :: nat

definition elems :: "Int16Array \<Rightarrow> sample list" where
  "elems a = take (arr_length a) (drop (arr_offset a) (arr_buffer a))"

text \<open>\<open>new Int16Array(n)\<close>: a fresh zeroed buffer.\<close>

definition new_Int16Array :: "nat \<Rightarrow> Int16Array" where
  "new_Int16Array n = \<lparr>arr_buffer = replicate n 0, arr_offset = 0, arr_length = n\<rparr>"

text \<open>\<open>new Int16Array(buffer)\<close>: a window on all of an existing buffer.\<close>

definition Int16Array_on :: "sample list \<Rightarrow> Int16Array" where
  "Int16Array_on b = \<lparr>arr_buffer = b, arr_offset = 0, arr_length = length b\<rparr>"

text \<open>\<open>target.set(source, at)\<close>, for a source that fits.\<close>

definition set_at :: "Int16Array \<Rightarrow> Int16Array \<Rightarrow> nat \<Rightarrow> Int16Array" where
  "set_at target source at =
     (let i = arr_offset target + at
      in target\<lparr>arr_buffer :=
           take i (arr_buffer target) @ elems source @
           drop (i + length (elems source)) (arr_buffer target)\<rparr>)"

definition mergeBuffers :: "Int16Array \<Rightarrow> Int16Array \<Rightarrow> Int16Array" where
  "mergeBuffers lhs rhs =
     (let mergedBuffer = new_Int16Array (arr_length lhs + arr_length rhs);
          mergedBuffer = set_at mergedBuffer lhs 0;
          mergedBuffer = set_at mergedBuffer rhs (arr_length lhs)
      in mergedBuffer)"

text \<open>
  \<open>a.subarray(begin, end)\<close> with both bounds not negative: a new window on the same
  buffer. \<open>None\<close> for \<open>end\<close> is the call with one argument.
\<close>

definition subarray :: "nat \<Rightarrow> nat option \<Rightarrow> Int16Array \<Rightarrow> Int16Array" where
  "subarray begin fin a =
     (let b = min begin (arr_length a);
          e = (case fin of None \<Rightarrow> arr_length a | Some n \<Rightarrow> min n (arr_length a))
      in \<lparr>arr_buffer = arr_buffer a, arr_offset = arr_offset a + b, arr_length = e - b\<rparr>)"

text \<open>
  \<open>new Uint8Array(buffer)\<close>, as a value: all the bytes of the buffer, two for each element,
  low byte first.
\<close>

definition Uint8Array_on :: "sample list \<Rightarrow> 8 word list" where
  "Uint8Array_on b = concat (map (\<lambda>x. [ucast x, ucast (drop_bit 8 x)]) b)"

record AudioContext =
  sampleRate :: nat

record Microphone =
  audioBufferQueue :: Int16Array
  audioContext :: "AudioContext option"
  stream :: bool
  onDisconnectCallback :: bool

definition new_Microphone :: Microphone where
  "new_Microphone =
     \<lparr>audioBufferQueue = new_Int16Array 0, audioContext = None, stream = False,
      onDisconnectCallback = False\<rparr>"

text \<open>
  What \<open>startRecording\<close> leaves once its promises have resolved: a stream, the disconnect
  callback and an audio context at \<open>SAMPLE_RATE\<close>.
\<close>

definition startRecording :: "Microphone \<Rightarrow> Microphone" where
  "startRecording m =
     m\<lparr>stream := True, onDisconnectCallback := True,
       audioContext := Some \<lparr>sampleRate = SAMPLE_RATE\<rparr>\<rparr>"

definition stopRecording :: "Microphone \<Rightarrow> Microphone" where
  "stopRecording m =
     m\<lparr>stream := False, audioContext := None, audioBufferQueue := new_Int16Array 0,
       onDisconnectCallback := False\<rparr>"

text \<open>
  The handler \<open>audioWorkletNode.port.onmessage\<close> (lines 136-159) on one message with the
  samples \<open>audio_data\<close>: the microphone afterwards, and the buffer handed to
  \<open>onAudioCallback\<close> when there is one.

  The source computes \<open>bufferDuration = length / sampleRate * 1000\<close> and
  \<open>Math.floor(sampleRate * 0.1)\<close> in double precision. The context is only ever created
  with the sample rate 16000, and there the doubles give \<open>bufferDuration >= 100\<close> exactly
  when the length is at least 1600, and \<open>totalSamples = 1600\<close>; so the model computes
  with natural numbers.
\<close>

definition port_onmessage :: "sample list \<Rightarrow> Microphone \<Rightarrow> Microphone \<times> 8 word list option" where
  "port_onmessage audio_data m =
     (case audioContext m of
        None \<Rightarrow> (m, None)
      | Some ctx \<Rightarrow>
          (let currentBuffer = Int16Array_on audio_data;
               queue = mergeBuffers (audioBufferQueue m) currentBuffer
           in if 100 * sampleRate ctx \<le> arr_length queue * 1000
              then (let totalSamples = sampleRate ctx div 10;
                        finalBuffer = Uint8Array_on (arr_buffer (subarray 0 (Some totalSamples) queue))
                    in (m\<lparr>audioBufferQueue := subarray totalSamples None queue\<rparr>,
                        Some finalBuffer))
              else (m\<lparr>audioBufferQueue := queue\<rparr>, None)))"

text \<open>A run of messages: the microphone afterwards and the buffers handed on, in order.\<close>

fun port_messages :: "sample list list \<Rightarrow> Microphone \<Rightarrow> Microphone \<times> 8 word list list" where
  "port_messages [] m = (m, [])"
| "port_messages (d # ds) m =
     (case port_onmessage d m of
        (m1, out) \<Rightarrow>
          (case port_messages ds m1 of
             (m2, outs) \<Rightarrow> (m2, (case out of None \<Rightarrow> [] | Some f \<Rightarrow> [f]) @ outs)))"

section \<open>The editor plugin's state field (editorPlugin.ts)\<close>

datatype StateEffect = transcriptionStart | postprocessStart | transcriptionEnd | otherEffect

datatype DictationState = Inactive | Recording | Processing

text \<open>\<open>dictationStateField.update(value, tr)\<close> on the effects of a transaction.\<close>

fun dictationState_update :: "DictationState \<Rightarrow> StateEffect list \<Rightarrow> DictationState" where
  "dictationState_update v [] = v"
| "dictationState_update v (effect # effects) =
     (if effect = transcriptionStart then Recording
      else if effect = postprocessStart then Processing
      else if effect = transcriptionEnd then Inactive
      else dictationState_update v effects)"

section \<open>The host editor\<close>

record EditorPosition =
  line :: int
  ch :: nat

text \<open>
  The methods of Obsidian's \<open>Editor\<close> that the transcriber calls, over any type \<open>'ed\<close> of
  editor states. \<open>isConnected\<close> is \<open>cm.dom.isConnected\<close>. \<open>None\<close> is a call that throws.
  \<open>replaceRange_value\<close> is \<open>replaceRange\<close> called with a value that is not a string.
\<close>

record 'ed host =
  isConnected :: "'ed \<Rightarrow> bool"
  getCursor_from :: "'ed \<Rightarrow> EditorPosition"
  getCursor_to :: "'ed \<Rightarrow> EditorPosition"
  getLine :: "int \<Rightarrow> 'ed \<Rightarrow> string option"
  replaceRange :: "string \<Rightarrow> EditorPosition \<Rightarrow> EditorPosition \<Rightarrow> 'ed \<Rightarrow> 'ed option"
  replaceRange_value :: "js_value \<Rightarrow> EditorPosition \<Rightarrow> EditorPosition \<Rightarrow> 'ed \<Rightarrow> 'ed option"
  setSelection :: "EditorPosition \<Rightarrow> EditorPosition \<Rightarrow> 'ed \<Rightarrow> 'ed"
  setCursor :: "EditorPosition \<Rightarrow> 'ed \<Rightarrow> 'ed"

section \<open>The transcriber (AssemblyAITranscriber.ts, lines 79-444)\<close>

datatype ReadyState = CONNECTING | OPEN | CLOSING | CLOSED

datatype ws_data = Binary "8 word list" | Text string

text \<open>
  The calls the transcriber makes on its collaborators, in the order it makes them.
  \<open>ConsoleError\<close> stands for the \<open>console.error\<close> of a \<open>catch\<close> or an error handler of the
  session; what \<open>postProcessTranscript\<close>, \<open>getStreamToken\<close> and \<open>onclose\<close> write to the console
  is not recorded.
\<close>

datatype call =
    CheckEditor bool
  | ReplaceRange nat js_value EditorPosition EditorPosition
  | SetSelection nat EditorPosition EditorPosition
  | SetCursor nat EditorPosition
  | Dispatch nat StateEffect
  | MicrophoneStop
  | SocketSend ws_data
  | SocketClose
  | Request http_request
  | ConsoleError

record line_range =
  range_from :: int
  range_to :: int

text \<open>
  \<open>runPostProcess\<close> suspended at its \<open>await\<close>: the editor its local variable
  \<open>activeEditor\<close> holds, the text it sent to \<open>postProcessTranscript\<close>, and the request
  in flight, if any.
\<close>

record pending_rewrite =
  rw_editor :: nat
  rw_text :: string
  rw_request :: "http_request option"

text \<open>
  The fields of the transcriber, and under them what it acts on: the plugin's settings, the
  editors by reference, the state field of each editor's view, the messages that went out
  on the socket, the suspended runs of \<open>runPostProcess\<close>, and the calls made so far.
  \<open>websocket\<close> holds the \<open>readyState\<close> of the socket the field refers to.
\<close>

record 'ed transcriber =
  apiKey :: string
  microphone :: Microphone
  websocket :: "ReadyState option"
  transcribedLines :: line_range
  activeEditor :: "nat option"
  isTranscribing :: bool
  settings :: DictaphoneSettings
  editors :: "nat \<Rightarrow> 'ed"
  dictationStateField :: "nat \<Rightarrow> DictationState"
  wire :: "ws_data list"
  pending :: "pending_rewrite list"
  calls :: "call list"

text \<open>The value \<open>{ from: -1, to: -1 }\<close> that stands for no tracked lines.\<close>

definition no_lines :: line_range where
  "no_lines = \<lparr>range_from = - 1, range_to = - 1\<rparr>"

text \<open>One more call in the log.\<close>

definition called :: "call \<Rightarrow> 'ed transcriber \<Rightarrow> 'ed transcriber" where
  "called c t = t\<lparr>calls := calls t @ [c]\<rparr>"

text \<open>\<open>dispatchStateEffect\<close> (lines 437-443).\<close>

definition dispatchStateEffect :: "StateEffect \<Rightarrow> 'ed transcriber \<Rightarrow> 'ed transcriber" where
  "dispatchStateEffect effect t =
     (case activeEditor t of
        None \<Rightarrow> t
      | Some cm \<Rightarrow>
          called (Dispatch cm effect)
            (t\<lparr>dictationStateField := (dictationStateField t)
                 (cm := dictationState_update (dictationStateField t cm) [effect])\<rparr>))"

text \<open>
  \<open>WebSocket.send\<close>: it throws while the socket is connecting, transmits while it is open,
  and discards the data once the socket is closing or closed.
\<close>

definition socket_send :: "ws_data \<Rightarrow> 'ed transcriber \<Rightarrow> exn option \<times> 'ed transcriber" where
  "socket_send d t =
     (case websocket t of
        None \<Rightarrow> (Some TypeError, t)
      | Some CONNECTING \<Rightarrow> (Some InvalidStateError, called (SocketSend d) t)
      | Some OPEN \<Rightarrow> (None, called (SocketSend d) (t\<lparr>wire := wire t @ [d]\<rparr>))
      | Some _ \<Rightarrow> (None, called (SocketSend d) t))"

text \<open>\<open>WebSocket.close\<close>: the socket starts closing, unless it is closed already.\<close>

definition socket_close :: "'ed transcriber \<Rightarrow> 'ed transcriber" where
  "socket_close t =
     called SocketClose
       (t\<lparr>websocket := (case websocket t of
                           None \<Rightarrow> None
                         | Some CLOSED \<Rightarrow> Some CLOSED
                         | Some _ \<Rightarrow> Some CLOSING)\<rparr>)"

text \<open>\<open>this.microphone.stopRecording()\<close>.\<close>

definition microphone_stopRecording :: "'ed transcriber \<Rightarrow> 'ed transcriber" where
  "microphone_stopRecording t = called MicrophoneStop (t\<lparr>microphone := stopRecording (microphone t)\<rparr>)"

text \<open>The message of line 229.\<close>

definition terminate_session :: ws_data where
  "terminate_session = Text ''{\"terminate_session\":true}''"

text \<open>Lines 385-389: what \<open>runPostProcess\<close> does last, on every way out of its \<open>try\<close>.\<close>

definition runPostProcess_end :: "'ed transcriber \<Rightarrow> 'ed transcriber" where
  "runPostProcess_end t =
     (dispatchStateEffect transcriptionEnd (t\<lparr>transcribedLines := no_lines\<rparr>))\<lparr>activeEditor := None\<rparr>"

text \<open>The loop of lines 358-365: the lines \<open>i = from, ..., to\<close>, or \<open>None\<close> when a read throws.\<close>

fun getLines :: "'ed host \<Rightarrow> 'ed \<Rightarrow> int list \<Rightarrow> string list option" where
  "getLines h ed [] = Some []"
| "getLines h ed (i # is) =
     (case getLine h i ed of
        None \<Rightarrow> None
      | Some l \<Rightarrow> (case getLines h ed is of None \<Rightarrow> None | Some ls \<Rightarrow> Some (l # ls)))"

text \<open>
  Lines 351-368: \<open>runPostProcess\<close> from the start of its \<open>try\<close> to the \<open>await\<close>, where
  it is suspended; an exception before the \<open>await\<close> goes to the \<open>catch\<close> and on to the
  end of the function.
\<close>

definition runPostProcess_try :: "'ed host \<Rightarrow> 'ed transcriber \<Rightarrow> 'ed transcriber" where
  "runPostProcess_try h t =
     (case activeEditor t of
        None \<Rightarrow> runPostProcess_end (called ConsoleError t)
      | Some r \<Rightarrow>
          (let t1 = dispatchStateEffect postprocessStart t
           in case getLines h (editors t1 r)
                     [range_from (transcribedLines t1) .. range_to (transcribedLines t1)] of
                None \<Rightarrow> runPostProcess_end (called ConsoleError t1)
              | Some lines \<Rightarrow>
                  (let input = join [CHR 0x0A] lines;
                       req = postProcessTranscript_begin (apiKey t1) (settings t1) input;
                       t2 = (case req of None \<Rightarrow> t1 | Some q \<Rightarrow> called (Request q) t1)
                   in t2\<lparr>pending := pending t2 @
                          [\<lparr>rw_editor = r, rw_text = input, rw_request = req\<rparr>]\<rparr>)))"

text \<open>
  Lines 224-232 of \<open>stopTranscription\<close>: the flag is cleared, the microphone stopped, and
  a socket that is neither closed nor closing is sent the termination message, closed and
  dropped. The exception is the one \<open>send\<close> throws, if it does.
\<close>

definition stopTranscription_teardown :: "'ed transcriber \<Rightarrow> exn option \<times> 'ed transcriber" where
  "stopTranscription_teardown t =
     (let t1 = t\<lparr>isTranscribing := False\<rparr>;
          t2 = microphone_stopRecording t1
      in case websocket t2 of
           None \<Rightarrow> (None, t2)
         | Some rs \<Rightarrow>
             if rs = CLOSED \<or> rs = CLOSING then (None, t2)
             else (case socket_send terminate_session t2 of
                     (Some e, t3) \<Rightarrow> (Some e, t3)
                   | (None, t3) \<Rightarrow> (None, (socket_close t3)\<lparr>websocket := None\<rparr>)))"

text \<open>
  \<open>stopTranscription\<close> (lines 213-233), \<open>runPostProcess\<close> up to its first suspension
  (lines 342-368) and \<open>checkEditor\<close> (lines 201-208). \<open>stopTranscription\<close> returns the
  exception it throws, if any. \<open>runPostProcess\<close> is \<open>async\<close> and is not awaited: it runs
  up to its \<open>await\<close> inside the call, an exception in it rejects its promise, which nobody
  handles, and the caller goes on.
\<close>

function stopTranscription :: "'ed host \<Rightarrow> bool \<Rightarrow> 'ed transcriber \<Rightarrow> exn option \<times> 'ed transcriber"
  and runPostProcess :: "'ed host \<Rightarrow> 'ed transcriber \<Rightarrow> 'ed transcriber"
  and checkEditor :: "'ed host \<Rightarrow> 'ed transcriber \<Rightarrow> (exn + bool) \<times> 'ed transcriber"
where
  "stopTranscription h immediate t =
     (if \<not> isTranscribing t then (None, t)
      else stopTranscription_teardown
             (if \<not> immediate then runPostProcess h t else t\<lparr>activeEditor := None\<rparr>))"
| "runPostProcess h t =
     (case checkEditor h t of
        (Inl e, t1) \<Rightarrow> t1
      | (Inr ok, t1) \<Rightarrow>
          if \<not> ok \<or> range_from (transcribedLines t1) = - 1
          then dispatchStateEffect transcriptionEnd (t1\<lparr>transcribedLines := no_lines\<rparr>)
          else runPostProcess_try h t1)"
| "checkEditor h t =
     (if (case activeEditor t of None \<Rightarrow> True | Some r \<Rightarrow> \<not> isConnected h (editors t r))
      then (case stopTranscription h True (called (CheckEditor False) t) of
              (Some e, t1) \<Rightarrow> (Inl e, t1)
            | (None, t1) \<Rightarrow> (Inr False, t1))
      else (Inr True, called (CheckEditor True) t))"
  by pat_completeness auto
termination
  by (relation "measure (\<lambda>x. case x of
        Inl (h, immediate, t) \<Rightarrow> if immediate then 0 else 3
      | Inr (Inl (h, t)) \<Rightarrow> 2
      | Inr (Inr (h, t)) \<Rightarrow> Suc 0)") auto

declare stopTranscription.simps [simp del] runPostProcess.simps [simp del] checkEditor.simps [simp del]

text \<open>
  \<open>replaceRange\<close> with the value \<open>postProcessTranscript\<close> resolved to, which is a string
  unless the service answered with something else in \<open>response\<close>.
\<close>

definition replaceRange_any ::
  "'ed host \<Rightarrow> js_value \<Rightarrow> EditorPosition \<Rightarrow> EditorPosition \<Rightarrow> 'ed \<Rightarrow> 'ed option" where
  "replaceRange_any h v = (case v of JString s \<Rightarrow> replaceRange h s | _ \<Rightarrow> replaceRange_value h v)"

text \<open>
  Lines 368-389: \<open>runPostProcess\<close> resumed when the promise of \<open>postProcessTranscript\<close>
  settles. \<open>k\<close> is the suspended run, \<open>resp\<close> how its request settled. The positions are
  built from \<open>this.transcribedLines\<close> as it is now, and the replacement goes to the editor
  the local variable has held since before the \<open>await\<close>.
\<close>

definition runPostProcess_resume ::
  "'ed host \<Rightarrow> (string \<Rightarrow> js_value option) \<Rightarrow> pending_rewrite \<Rightarrow> http_response \<Rightarrow>
   'ed transcriber \<Rightarrow> 'ed transcriber" where
  "runPostProcess_resume h parse k resp t =
     (let t0 = t\<lparr>pending := remove1 k (pending t)\<rparr>;
          text = (case rw_request k of
                    None \<Rightarrow> JString (rw_text k)
                  | Some q \<Rightarrow> postProcessTranscript_settle parse (rw_text k) resp);
          activeEditor = rw_editor k;
          from = \<lparr>line = range_from (transcribedLines t0), ch = 0\<rparr>
      in case getLine h (range_to (transcribedLines t0)) (editors t0 activeEditor) of
           None \<Rightarrow> runPostProcess_end (called ConsoleError t0)
         | Some l \<Rightarrow>
             (let to = \<lparr>line = range_to (transcribedLines t0), ch = length l\<rparr>;
                  t1 = called (ReplaceRange activeEditor text from to) t0
              in case replaceRange_any h text from to (editors t1 activeEditor) of
                   None \<Rightarrow> runPostProcess_end (called ConsoleError t1)
                 | Some ed \<Rightarrow>
                     runPostProcess_end (t1\<lparr>editors := (editors t1)(activeEditor := ed)\<rparr>)))"

text \<open>Lines 254-263 and 300-309: the tracked range takes in one more line.\<close>

definition track_line :: "line_range \<Rightarrow> int \<Rightarrow> line_range" where
  "track_line tracked l =
     (if range_from tracked = - 1 then \<lparr>range_from = l, range_to = l\<rparr>
      else \<lparr>range_from = min (range_from tracked) l, range_to = max (range_to tracked) l\<rparr>)"

text \<open>\<open>handlePartialTranscript\<close> (lines 239-264).\<close>

definition handlePartialTranscript ::
  "'ed host \<Rightarrow> string \<Rightarrow> 'ed transcriber \<Rightarrow> exn option \<times> 'ed transcriber" where
  "handlePartialTranscript h text t =
     (case checkEditor h t of
        (Inl e, t1) \<Rightarrow> (Some e, t1)
      | (Inr False, t1) \<Rightarrow> (None, t1)
      | (Inr True, t1) \<Rightarrow>
          (case activeEditor t1 of
             None \<Rightarrow> (Some TypeError, t1)
           | Some r \<Rightarrow>
               (let from = getCursor_from h (editors t1 r);
                    to = getCursor_to h (editors t1 r);
                    t2 = called (ReplaceRange r (JString text) from to) t1
                in case replaceRange h text from to (editors t2 r) of
                     None \<Rightarrow> (Some HostError, t2)
                   | Some ed1 \<Rightarrow>
                       (let head = from\<lparr>ch := ch from + length text\<rparr>;
                            ed2 = setSelection h from head ed1;
                            t3 = called (SetSelection r from head)
                                   (t2\<lparr>editors := (editors t2)(r := ed2)\<rparr>)
                        in (None, t3\<lparr>transcribedLines :=
                                      track_line (transcribedLines t3) (line from)\<rparr>)))))"

definition endsWith_newline :: "string \<Rightarrow> bool" where
  "endsWith_newline s = (s \<noteq> [] \<and> last s = CHR 0x0A)"

text \<open>\<open>handleFinalTranscript\<close> (lines 270-310).\<close>

definition handleFinalTranscript ::
  "'ed host \<Rightarrow> string \<Rightarrow> 'ed transcriber \<Rightarrow> exn option \<times> 'ed transcriber" where
  "handleFinalTranscript h text t =
     (case checkEditor h t of
        (Inl e, t1) \<Rightarrow> (Some e, t1)
      | (Inr False, t1) \<Rightarrow> (None, t1)
      | (Inr True, t1) \<Rightarrow>
          (case activeEditor t1 of
             None \<Rightarrow> (Some TypeError, t1)
           | Some r \<Rightarrow>
               (let text = apply_transforms text;
                    from = getCursor_from h (editors t1 r);
                    to = getCursor_to h (editors t1 r);
                    insert = (if \<not> endsWith_newline text then text @ '' '' else text);
                    end = from\<lparr>ch := ch from + length insert\<rparr>;
                    t2 = called (ReplaceRange r (JString insert) from to) t1
                in case replaceRange h insert from to (editors t2 r) of
                     None \<Rightarrow> (Some HostError, t2)
                   | Some ed1 \<Rightarrow>
                       (let ed2 = setCursor h end ed1;
                            t3 = called (SetCursor r end) (t2\<lparr>editors := (editors t2)(r := ed2)\<rparr>);
                            from = getCursor_from h (editors t3 r)
                        in (None, t3\<lparr>transcribedLines :=
                                      track_line (transcribedLines t3) (line from)\<rparr>)))))"

text \<open>An exception that a \<open>try\<close> around the call catches and logs.\<close>

definition caught :: "exn option \<times> 'ed transcriber \<Rightarrow> 'ed transcriber" where
  "caught r = (case r of (None, t) \<Rightarrow> t | (Some e, t) \<Rightarrow> called ConsoleError t)"

text \<open>
  \<open>websocket.onmessage\<close> (lines 145-159) on a message that parses, with its
  \<open>message_type\<close> and its \<open>text\<close> (empty when the message has none).
\<close>

definition websocket_onmessage :: "'ed host \<Rightarrow> string \<Rightarrow> string \<Rightarrow> 'ed transcriber \<Rightarrow> 'ed transcriber" where
  "websocket_onmessage h message_type text t =
     (if text \<noteq> [] then
        (if message_type = ''PartialTranscript'' then caught (handlePartialTranscript h text t)
         else if message_type = ''FinalTranscript'' then caught (handleFinalTranscript h text t)
         else t)
      else t)"

text \<open>\<open>websocket.onerror\<close> and \<open>websocket.onclose\<close> (lines 162-173).\<close>

definition websocket_onerror :: "'ed host \<Rightarrow> 'ed transcriber \<Rightarrow> 'ed transcriber" where
  "websocket_onerror h t = snd (stopTranscription h False (called ConsoleError t))"

definition websocket_onclose :: "'ed host \<Rightarrow> 'ed transcriber \<Rightarrow> 'ed transcriber" where
  "websocket_onclose h t = snd (stopTranscription h False t)"

text \<open>The audio data callback given to \<open>microphone.startRecording\<close> (lines 181-188).\<close>

definition onAudioCallback :: "8 word list \<Rightarrow> 'ed transcriber \<Rightarrow> exn option \<times> 'ed transcriber" where
  "onAudioCallback buffer t =
     (if isTranscribing t \<and> websocket t = Some OPEN then socket_send (Binary buffer) t
      else (None, t))"

text \<open>A message from the audio worklet reaching the microphone of a transcriber.\<close>

definition worklet_message :: "sample list \<Rightarrow> 'ed transcriber \<Rightarrow> 'ed transcriber" where
  "worklet_message audio_data t =
     (case port_onmessage audio_data (microphone t) of
        (m, None) \<Rightarrow> t\<lparr>microphone := m\<rparr>
      | (m, Some finalBuffer) \<Rightarrow> snd (onAudioCallback finalBuffer (t\<lparr>microphone := m\<rparr>)))"

text \<open>
  \<open>Microphone.handleDeviceChange\<close> (Microphone.ts, lines 177-180), with the transcriber's
  disconnection callback (lines 190-193) as the callback.
\<close>

definition handleDeviceChange :: "'ed host \<Rightarrow> 'ed transcriber \<Rightarrow> 'ed transcriber" where
  "handleDeviceChange h t =
     (let t1 = t\<lparr>microphone := stopRecording (microphone t)\<rparr>
      in if onDisconnectCallback (microphone t1) then snd (stopTranscription h False t1) else t1)"

text \<open>
  \<open>startTranscription\<close> (lines 125-199), run without interruption: \<open>token\<close> is what
  \<open>getStreamToken\<close> resolved to (\<open>None\<close> when it threw), \<open>mic_ok\<close> whether
  \<open>microphone.startRecording\<close> resolved.
\<close>

definition startTranscription ::
  "'ed host \<Rightarrow> nat \<Rightarrow> string option \<Rightarrow> bool \<Rightarrow> 'ed transcriber \<Rightarrow> 'ed transcriber" where
  "startTranscription h editor token mic_ok t =
     (if isTranscribing t then t
      else case token of
        None \<Rightarrow> snd (stopTranscription h False (called ConsoleError t))
      | Some tok \<Rightarrow>
          (let t1 = t\<lparr>websocket := Some CONNECTING\<rparr>;
               t2 = t1\<lparr>isTranscribing := True, activeEditor := Some editor\<rparr>;
               t3 = dispatchStateEffect transcriptionStart t2
           in if mic_ok then t3\<lparr>microphone := startRecording (microphone t3)\<rparr>
              else snd (stopTranscription h False (called ConsoleError t3))))"

text \<open>The constructor (lines 93-97), with the environment the transcriber starts in.\<close>

definition new_transcriber :: "string \<Rightarrow> DictaphoneSettings \<Rightarrow> (nat \<Rightarrow> 'ed) \<Rightarrow> 'ed transcriber" where
  "new_transcriber key cfg eds =
     \<lparr>apiKey = key, microphone = new_Microphone, websocket = None, transcribedLines = no_lines,
      activeEditor = None, isTranscribing = False, settings = cfg, editors = eds,
      dictationStateField = (\<lambda>_. Inactive), wire = [], pending = [], calls = []\<rparr>"

section \<open>Executions\<close>

text \<open>What can happen to a transcriber, one event at a time.\<close>

datatype 'ed event =
    Start nat "string option" bool
  | Stop bool
  | SocketState ReadyState
  | SocketMessage string string
  | SocketError
  | SocketClosed
  | AudioData "sample list"
  | DeviceChange
  | EditorChange nat "'ed"
  | RewriteSettled pending_rewrite http_response

definition step ::
  "'ed host \<Rightarrow> (string \<Rightarrow> js_value option) \<Rightarrow> 'ed event \<Rightarrow> 'ed transcriber \<Rightarrow> 'ed transcriber" where
  "step h parse ev t =
     (case ev of
        Start editor token mic_ok \<Rightarrow> startTranscription h editor token mic_ok t
      | Stop immediate \<Rightarrow> snd (stopTranscription h immediate t)
      | SocketState rs \<Rightarrow> t\<lparr>websocket := map_option (\<lambda>_. rs) (websocket t)\<rparr>
      | SocketMessage message_type text \<Rightarrow> websocket_onmessage h message_type text t
      | SocketError \<Rightarrow> websocket_onerror h t
      | SocketClosed \<Rightarrow> websocket_onclose h t
      | AudioData audio_data \<Rightarrow> worklet_message audio_data t
      | DeviceChange \<Rightarrow> handleDeviceChange h t
      | EditorChange r ed \<Rightarrow> t\<lparr>editors := (editors t)(r := ed)\<rparr>
      | RewriteSettled k resp \<Rightarrow>
          if k \<in> set (pending t) then runPostProcess_resume h parse k resp t else t)"

definition run ::
  "'ed host \<Rightarrow> (string \<Rightarrow> js_value option) \<Rightarrow> 'ed event list \<Rightarrow> 'ed transcriber \<Rightarrow> 'ed transcriber" where
  "run h parse evs t = fold (step h parse) evs t"

text \<open>
  The state of the session: recording while \<open>isTranscribing\<close> holds, post-processing while
  a run of \<open>runPostProcess\<close> is suspended, inactive otherwise.
\<close>

definition session_state :: "'ed transcriber \<Rightarrow> DictationState" where
  "session_state t =
     (if isTranscribing t then Recording else if pending t \<noteq> [] then Processing else Inactive)"

section \<open>A plain editor\<close>

text \<open>
  An implementation of the host interface to run the transcriber on: a document as its
  list of lines, a selection as anchor and head, and whether the view is attached.
\<close>

record plain_editor =
  attached :: bool
  anchor :: EditorPosition
  head :: EditorPosition
  doc :: "string list"

definition pos_le :: "EditorPosition \<Rightarrow> EditorPosition \<Rightarrow> bool" where
  "pos_le a b = (line a < line b \<or> (line a = line b \<and> ch a \<le> ch b))"

fun split_lines :: "string \<Rightarrow> string \<Rightarrow> string list" where
  "split_lines cur [] = [cur]"
| "split_lines cur (c # cs) =
     (if c = CHR 0x0A then cur # split_lines [] cs else split_lines (cur @ [c]) cs)"

definition valid_pos :: "string list \<Rightarrow> EditorPosition \<Rightarrow> bool" where
  "valid_pos d p = (0 \<le> line p \<and> nat (line p) < length d \<and> ch p \<le> length (d ! nat (line p)))"

definition plain_replaceRange ::
  "string \<Rightarrow> EditorPosition \<Rightarrow> EditorPosition \<Rightarrow> plain_editor \<Rightarrow> plain_editor option" where
  "plain_replaceRange text from to ed =
     (if valid_pos (doc ed) from \<and> valid_pos (doc ed) to \<and> pos_le from to
      then Some (ed\<lparr>doc :=
             take (nat (line from)) (doc ed) @
             split_lines [] (take (ch from) (doc ed ! nat (line from)) @ text @
                             drop (ch to) (doc ed ! nat (line to))) @
             drop (Suc (nat (line to))) (doc ed)\<rparr>)
      else None)"

definition plain_host :: "plain_editor host" where
  "plain_host =
     \<lparr>isConnected = attached,
      getCursor_from = (\<lambda>ed. if pos_le (anchor ed) (head ed) then anchor ed else head ed),
      getCursor_to = (\<lambda>ed. if pos_le (anchor ed) (head ed) then head ed else anchor ed),
      getLine = (\<lambda>n ed. if 0 \<le> n \<and> nat n < length (doc ed) then Some (doc ed ! nat n) else None),
      replaceRange = plain_replaceRange,
      replaceRange_value = (\<lambda>v from to ed. None),
      setSelection = (\<lambda>a b ed. ed\<lparr>anchor := a, head := b\<rparr>),
      setCursor = (\<lambda>p ed. ed\<lparr>anchor := p, head := p\<rparr>)\<rparr>"

section \<open>Auxiliary notions for the statements\<close>

text \<open>A window that lies within its buffer.\<close>

definition wf_view :: "Int16Array \<Rightarrow> bool" where
  "wf_view a = (arr_offset a + arr_length a \<le> length (arr_buffer a))"

text \<open>
  Where a text ends in a document when it is inserted at \<open>from\<close>: on the same line when it
  has no newline, else as many lines down as it has newlines, after what follows the last.
\<close>

definition end_of_insert :: "EditorPosition \<Rightarrow> string \<Rightarrow> EditorPosition" where
  "end_of_insert from inserted =
     (let ls = split_lines [] inserted
      in if length ls = 1 then from\<lparr>ch := ch from + length inserted\<rparr>
         else \<lparr>line = line from + int (length ls - 1), ch = length (last ls)\<rparr>)"

text \<open>The lines at which the calls of a log set a selection: the line of each anchor.\<close>

fun selection_lines :: "call list \<Rightarrow> int list" where
  "selection_lines [] = []"
| "selection_lines (SetSelection r a b # cs) = line a # selection_lines cs"
| "selection_lines (c # cs) = selection_lines cs"

text \<open>The range that spans a list of lines, and no range for no lines.\<close>

definition span_of :: "int list \<Rightarrow> line_range" where
  "span_of ls = (if ls = [] then no_lines else \<lparr>range_from = Min (set ls), range_to = Max (set ls)\<rparr>)"

text \<open>A run of partial transcripts, each handled as \<open>websocket.onmessage\<close> does.\<close>

definition partials :: "'ed host \<Rightarrow> string list \<Rightarrow> 'ed transcriber \<Rightarrow> 'ed transcriber" where
  "partials h texts t = fold (\<lambda>text. websocket_onmessage h ''PartialTranscript'' text) texts t"

text \<open>The transcriber holds an editor, and its view is attached to the document.\<close>

definition live :: "'ed host \<Rightarrow> 'ed transcriber \<Rightarrow> bool" where
  "live h t = (case activeEditor t of None \<Rightarrow> False | Some r \<Rightarrow> isConnected h (editors t r))"




text \<open>Lines 277-289: the text a final transcript inserts.\<close>

definition final_insert :: "string \<Rightarrow> string" where
  "final_insert text =
     (if \<not> endsWith_newline (apply_transforms text) then apply_transforms text @ '' ''
      else apply_transforms text)"

section \<open>A sample session\<close>

text \<open>Settings to evaluate with.\<close>

definition sample_settings :: DictaphoneSettings where
  "sample_settings =
     \<lparr>assemblyApiKey = ''key'', postProcess = True, postProcessPrompt = ''Correct grammar.'',
      finalModel = ''model''\<rparr>"

text \<open>An attached editor with the cursor at the start of its empty fourth line.\<close>

definition sample_editor :: plain_editor where
  "sample_editor =
     \<lparr>attached = True, anchor = \<lparr>line = 3, ch = 0\<rparr>, head = \<lparr>line = 3, ch = 0\<rparr>,
      doc = [''a'', ''b'', ''c'', '''']\<rparr>"

text \<open>The sample editor once the partial transcript \<open>hi\<close> has been written into it.\<close>

definition typed_editor :: plain_editor where
  "typed_editor =
     \<lparr>attached = True, anchor = \<lparr>line = 3, ch = 0\<rparr>, head = \<lparr>line = 3, ch = 2\<rparr>,
      doc = [''a'', ''b'', ''c'', ''hi'']\<rparr>"

text \<open>The same editor with its view detached from the document.\<close>

definition detached_editor :: plain_editor where
  "detached_editor = typed_editor\<lparr>attached := False\<rparr>"

text \<open>A new transcriber, with the sample editor behind every reference.\<close>

definition sample_transcriber :: "plain_editor transcriber" where
  "sample_transcriber = new_transcriber ''key'' sample_settings (\<lambda>r. sample_editor)"

text \<open>
  A session is started on editor 0, its socket opens, and the partial transcript \<open>hi\<close>
  arrives.
\<close>

definition recording_session :: "plain_editor event list" where
  "recording_session =
     [Start 0 (Some ''token'') True, SocketState OPEN, SocketMessage ''PartialTranscript'' ''hi'']"

text \<open>The transcriber these events lead to.\<close>

definition recording :: "plain_editor transcriber" where
  "recording =
     \<lparr>apiKey = ''key'', microphone = startRecording new_Microphone, websocket = Some OPEN,
      transcribedLines = \<lparr>range_from = 3, range_to = 3\<rparr>, activeEditor = Some 0,
      isTranscribing = True, settings = sample_settings,
      editors = (\<lambda>r. sample_editor)(0 := typed_editor),
      dictationStateField = (\<lambda>r. Inactive)(0 := Recording), wire = [], pending = [],
      calls = [Dispatch 0 transcriptionStart, CheckEditor True,
               ReplaceRange 0 (JString ''hi'') \<lparr>line = 3, ch = 0\<rparr> \<lparr>line = 3, ch = 0\<rparr>,
               SetSelection 0 \<lparr>line = 3, ch = 0\<rparr> \<lparr>line = 3, ch = 2\<rparr>]\<rparr>"

text \<open>The run of \<open>runPostProcess\<close> that a stop of the sample session leaves suspended.\<close>

definition sample_rewrite :: pending_rewrite where
  "sample_rewrite =
     \<lparr>rw_editor = 0, rw_text = ''hi'',
      rw_request = Some (lemur_request ''key'' sample_settings ''hi'')\<rparr>"

text \<open>The sample session after \<open>stopTranscription()\<close>, its rewrite still in flight.\<close>

definition stopping :: "plain_editor transcriber" where
  "stopping =
     recording
       \<lparr>microphone := stopRecording (startRecording new_Microphone), websocket := None,
        isTranscribing := False,
        dictationStateField := (\<lambda>r. Inactive)(0 := Processing),
        wire := [terminate_session], pending := [sample_rewrite],
        calls := calls recording @
          [CheckEditor True, Dispatch 0 postprocessStart,
           Request (lemur_request ''key'' sample_settings ''hi''),
           MicrophoneStop, SocketSend terminate_session, SocketClose]\<rparr>"

text \<open>The sample session with its editor detached.\<close>

definition orphaned :: "plain_editor transcriber" where
  "orphaned = recording\<lparr>editors := (editors recording)(0 := detached_editor)\<rparr>"

text \<open>A parser that rejects every response.\<close>

definition never_parses :: "string \<Rightarrow> js_value option" where
  "never_parses b = None"

text \<open>A parser for responses that carry the rewritten text \<open>Hi.\<close>.\<close>

definition sample_parse :: "string \<Rightarrow> js_value option" where
  "sample_parse b = Some (JObject [(''response'', JString ''Hi.'')])"


text \<open>The sample transcriber started on editor 0, its socket still connecting.\<close>

definition connecting :: "plain_editor transcriber" where
  "connecting = startTranscription plain_host 0 (Some ''token'') True sample_transcriber"

text \<open>The sample transcriber started on editor 0, with its socket open.\<close>

definition opened :: "plain_editor transcriber" where
  "opened = connecting\<lparr>websocket := Some OPEN\<rparr>"

section \<open>Properties of the text transforms\<close>

lemma trimSpaces_snoc:
  "\<not> is_space c \<Longrightarrow> trimSpaces (seg @ [c]) = dropWhile is_space seg @ [c]"
  by (cases "\<forall>x\<in>set seg. is_space x")
     (auto simp: trimSpaces_def dropWhile_append dropWhile_eq_Nil_conv)

lemma terminal_not_space: "sentence_terminal c \<Longrightarrow> \<not> is_space c"
  by (auto simp: sentence_terminal_def is_space_def)

lemma set_trimSpaces: "set (trimSpaces s) \<subseteq> set s"
  unfolding trimSpaces_def
  by (metis set_dropWhileD set_rev subsetI)

lemma sentences_loop_shape:
  "\<forall>x\<in>set seg. \<not> sentence_terminal x \<Longrightarrow> s \<in> set (sentences_loop seg inp) \<Longrightarrow>
   s \<noteq> [] \<and> (\<forall>x\<in>set (butlast s). \<not> sentence_terminal x)"
proof (induction inp arbitrary: seg)
  case Nil
  from Nil.prems(2) have s: "s = trimSpaces seg" and ne: "s \<noteq> []"
    by (simp_all add: Let_def split: if_splits)
  have "set (butlast s) \<subseteq> set seg"
    using set_trimSpaces[of seg] s by (meson in_set_butlastD subset_iff subsetI)
  then show ?case using Nil.prems(1) ne by blast
next
  case (Cons c cs)
  show ?case
  proof (cases "sentence_terminal c")
    case True
    then have t: "trimSpaces (seg @ [c]) = dropWhile is_space seg @ [c]"
      by (simp add: trimSpaces_snoc terminal_not_space)
    from Cons.prems(2) True have "s = dropWhile is_space seg @ [c] \<or> s \<in> set (sentences_loop [] cs)"
      by (simp add: t)
    then show ?thesis
    proof
      assume 1: "s = dropWhile is_space seg @ [c]"
      then have "set (butlast s) \<subseteq> set seg"
        by (simp add: subsetI set_dropWhileD)
      then show ?thesis using Cons.prems(1) 1 by blast
    next
      assume 2: "s \<in> set (sentences_loop [] cs)"
      show ?thesis by (rule Cons.IH[of "[]"]) (simp_all add: 2)
    qed
  next
    case False
    then have "s \<in> set (sentences_loop (seg @ [c]) cs)" using Cons.prems(2) by simp
    moreover have "\<forall>x\<in>set (seg @ [c]). \<not> sentence_terminal x" using False Cons.prems(1) by simp
    ultimately show ?thesis using Cons.IH[of "seg @ [c]"] by blast
  qed
qed

lemma match_literal_Some:
  "match_literal p s = Some r \<longleftrightarrow> (length p \<le> length s \<and> map to_lower (take (length p) s) = p \<and> r = drop (length p) s)"
proof (induction p s rule: match_literal.induct)
  case (1 s)
  then show ?case by auto
next
  case (2 p ps)
  then show ?case by simp
next
  case (3 p ps c cs)
  then show ?case by (cases "to_lower c = p") auto
qed

lemma join_filter: "filter (\<lambda>c. \<not> is_space c) (join '' '' xs) = filter (\<lambda>c. \<not> is_space c) (concat xs)"
proof (induction xs rule: induct_list012)
  case (3 x y zs)
  then show ?case by (simp add: is_space_def)
qed simp_all

lemma filter_dropWhile_space:
  "filter (\<lambda>c. \<not> is_space c) (dropWhile is_space xs) = filter (\<lambda>c. \<not> is_space c) xs"
  by (induction xs) simp_all

lemma filter_trimSpaces: "filter (\<lambda>c. \<not> is_space c) (trimSpaces s) = filter (\<lambda>c. \<not> is_space c) s"
proof -
  have "filter (\<lambda>c. \<not> is_space c) (trimSpaces s) =
        rev (filter (\<lambda>c. \<not> is_space c) (dropWhile is_space (rev (dropWhile is_space s))))"
    unfolding trimSpaces_def by (simp only: rev_filter)
  also have "\<dots> = rev (filter (\<lambda>c. \<not> is_space c) (rev (dropWhile is_space s)))"
    by (simp only: filter_dropWhile_space)
  also have "\<dots> = filter (\<lambda>c. \<not> is_space c) (dropWhile is_space s)"
    by (simp only: rev_filter rev_rev_ident)
  finally show ?thesis by (simp only: filter_dropWhile_space)
qed

lemma sentences_loop_content:
  "filter (\<lambda>c. \<not> is_space c) (concat (sentences_loop seg inp)) = filter (\<lambda>c. \<not> is_space c) (seg @ inp)"
proof (induction inp arbitrary: seg)
  case Nil
  have "trimSpaces seg = [] \<Longrightarrow> filter (\<lambda>c. \<not> is_space c) seg = []"
    using filter_trimSpaces[of seg] by simp
  then show ?case by (simp add: Let_def filter_trimSpaces)
next
  case (Cons c cs)
  show ?case
  proof (cases "sentence_terminal c")
    case True
    then show ?thesis using Cons.IH[of "[]"] by (simp add: filter_trimSpaces)
  next
    case False
    then show ?thesis using Cons.IH[of "seg @ [c]"] by simp
  qed
qed

lemma then_terminal_iff:
  "then_terminal r \<longleftrightarrow> (\<exists>c rest. r = Some (c # rest) \<and> sentence_terminal c)"
proof (cases r)
  case None
  then show ?thesis by (simp add: then_terminal_def)
next
  case (Some t)
  then show ?thesis by (cases t) (simp_all add: then_terminal_def)
qed

lemma match_then_terminal:
  assumes "\<forall>x\<in>set (butlast s). \<not> sentence_terminal x"
    and m: "match_literal p s = Some (c # r)" and c: "sentence_terminal c"
  shows "s \<noteq> [] \<and> sentence_terminal (last s) \<and> map to_lower (butlast s) = p"
proof -
  from m have len: "length p \<le> length s" and low: "map to_lower (take (length p) s) = p"
    and d: "drop (length p) s = c # r"
    by (simp_all add: match_literal_Some)
  have lt: "length p < length s" using d by (cases "length p < length s") auto
  have nth: "s ! length p = c" using d hd_drop_conv_nth[OF lt] by simp
  have e: "length p = length s - 1"
  proof (rule ccontr)
    assume "length p \<noteq> length s - 1"
    with lt have lb: "length p < length (butlast s)" by simp
    then have "butlast s ! length p \<in> set (butlast s)" by simp
    moreover have "butlast s ! length p = c"
      using lb nth by (simp add: nth_butlast)
    ultimately show False using assms(1) c by blast
  qed
  have b: "butlast s = take (length p) s" by (simp add: butlast_conv_take e)
  have ne: "s \<noteq> []" using lt by auto
  have l: "last s = c" using nth e ne by (simp add: last_conv_nth)
  show ?thesis using b l ne c low by simp
qed

lemma butlast_match:
  assumes low: "map to_lower (butlast s) = p" and ne: "s \<noteq> []"
  shows "match_literal p s = Some [last s]"
proof -
  have len: "length p = length s - 1" using low by (metis length_butlast length_map)
  have "drop (length s - 1) s = [last s]" using ne
    by (metis append_butlast_last_id append_eq_conv_conj length_butlast)
  then show ?thesis using low ne len by (simp add: match_literal_Some butlast_conv_take)
qed

lemma command_of_match:
  assumes a: "\<forall>x\<in>set (butlast s). \<not> sentence_terminal x" and t: "then_terminal (match_literal p s)"
  shows "s \<noteq> [] \<and> sentence_terminal (last s) \<and> map to_lower (butlast s) = p"
proof -
  from t obtain c r where m: "match_literal p s = Some (c # r)" and c: "sentence_terminal c"
    unfolding then_terminal_iff by blast
  from match_then_terminal[OF a m c] show ?thesis .
qed

lemma match_of_command:
  assumes low: "map to_lower (butlast s) = p" and ne: "s \<noteq> []" and t: "sentence_terminal (last s)"
  shows "then_terminal (match_literal p s)"
  unfolding then_terminal_iff using butlast_match[OF low ne] t by blast

lemma test_imp_spoken:
  assumes a: "\<forall>x\<in>set (butlast s). \<not> sentence_terminal x" and t: "newline_command_test s"
  shows "spoken_newline_command s"
proof -
  from t have "then_terminal (match_literal ''new line'' s) \<or> then_terminal (match_literal ''newline'' s)"
    by (simp only: newline_command_test_def)
  then show ?thesis
  proof
    assume "then_terminal (match_literal ''new line'' s)"
    from command_of_match[OF a this] show ?thesis
      by (simp only: spoken_newline_command_def simp_thms)
  next
    assume "then_terminal (match_literal ''newline'' s)"
    from command_of_match[OF a this] show ?thesis
      by (simp only: spoken_newline_command_def simp_thms)
  qed
qed

lemma spoken_imp_test:
  assumes "spoken_newline_command s"
  shows "newline_command_test s"
proof -
  have all: "s \<noteq> [] \<and> sentence_terminal (last s) \<and>
      (map to_lower (butlast s) = ''new line'' \<or> map to_lower (butlast s) = ''newline'')"
    using assms unfolding spoken_newline_command_def .
  note ne = all[THEN conjunct1] and t = all[THEN conjunct2, THEN conjunct1]
    and p = all[THEN conjunct2, THEN conjunct2]
  from p show ?thesis
  proof
    assume "map to_lower (butlast s) = ''new line''"
    from match_of_command[OF this ne t] show ?thesis
      by (simp only: newline_command_test_def simp_thms)
  next
    assume "map to_lower (butlast s) = ''newline''"
    from match_of_command[OF this ne t] show ?thesis
      by (simp only: newline_command_test_def simp_thms)
  qed
qed

lemma transform_by_sentences:
  "apply_transforms inp =
     join '' '' (map (\<lambda>s. if spoken_newline_command s then [CHR 0x0A, CHR 0x0A] else s)
       (stringToSentences inp))"
proof -
  have "map (\<lambda>s. if newline_command_test s then paragraph_break else s) (stringToSentences inp) =
        map (\<lambda>s. if spoken_newline_command s then [CHR 0x0A, CHR 0x0A] else s) (stringToSentences inp)"
  proof (rule map_cong[OF refl])
    fix s assume "s \<in> set (stringToSentences inp)"
    then have "\<forall>x\<in>set (butlast s). \<not> sentence_terminal x"
      unfolding stringToSentences_def using sentences_loop_shape[of "[]" s inp] by simp
    then have "newline_command_test s = spoken_newline_command s"
      using test_imp_spoken[of s] spoken_imp_test[of s] by blast
    then show "(if newline_command_test s then paragraph_break else s) =
               (if spoken_newline_command s then [CHR 0x0A, CHR 0x0A] else s)"
      by (simp only: paragraph_break_def)
  qed
  then show ?thesis
    by (simp only: apply_transforms_def transforms_def newline_transform_def fold_simps id_apply)
qed

text \<open>
  Claim C5. The transform pipeline for final transcripts splits its input at sentence-terminal
  punctuation, turns every sentence that is, up to case, \<open>new line\<close> or \<open>newline\<close> followed
  by one terminal mark into exactly two newline characters, keeps every other sentence, and
  joins the results with single spaces. On the split sentences the source's test, which
  anchors the start only, agrees with the whole-sentence reading; every sentence is non-empty
  and has no terminal but its last character; splitting loses nothing but spaces. The two
  examples of the specification evaluate as stated.
\<close>

theorem newline_command_pipeline:
  "apply_transforms ''Hello world. New line. Next thought.'' =
     ''Hello world. '' @ [CHR 0x0A, CHR 0x0A] @ '' Next thought.'' \<and>
   apply_transforms ''Newline.'' = [CHR 0x0A, CHR 0x0A] \<and>
   apply_transforms inp =
     join '' '' (map (\<lambda>s. if spoken_newline_command s then [CHR 0x0A, CHR 0x0A] else s)
       (stringToSentences inp)) \<and>
   (\<forall>s\<in>set (stringToSentences inp).
      newline_command_test s = spoken_newline_command s \<and>
      s \<noteq> [] \<and> (\<forall>x\<in>set (butlast s). \<not> sentence_terminal x)) \<and>
   filter (\<lambda>c. \<not> is_space c) (concat (stringToSentences inp)) = filter (\<lambda>c. \<not> is_space c) inp"
proof -
  have ex1: "apply_transforms ''Hello world. New line. Next thought.'' =
     ''Hello world. '' @ [CHR 0x0A, CHR 0x0A] @ '' Next thought.''"
    by code_simp
  have ex2: "apply_transforms ''Newline.'' = [CHR 0x0A, CHR 0x0A]"
    by code_simp
  have content: "filter (\<lambda>c. \<not> is_space c) (concat (stringToSentences inp)) =
      filter (\<lambda>c. \<not> is_space c) inp"
    unfolding stringToSentences_def using sentences_loop_content[of "[]" inp] by simp
  have each: "\<forall>s\<in>set (stringToSentences inp).
      newline_command_test s = spoken_newline_command s \<and>
      s \<noteq> [] \<and> (\<forall>x\<in>set (butlast s). \<not> sentence_terminal x)"
  proof
    fix s assume s: "s \<in> set (stringToSentences inp)"
    then have sh: "s \<noteq> [] \<and> (\<forall>x\<in>set (butlast s). \<not> sentence_terminal x)"
      unfolding stringToSentences_def using sentences_loop_shape[of "[]" s inp] by simp
    then have "newline_command_test s = spoken_newline_command s"
      using test_imp_spoken[of s] spoken_imp_test[of s] by blast
    with sh show "newline_command_test s = spoken_newline_command s \<and>
      s \<noteq> [] \<and> (\<forall>x\<in>set (butlast s). \<not> sentence_terminal x)"
      by (rule conjI[rotated])
  qed
  from ex1 ex2 transform_by_sentences[of inp] each content show ?thesis
    by (intro conjI)
qed

theorem newline_command_pipeline_witness:
  "stringToSentences ''Stop!  NEW LINE? ok'' = [''Stop!'', ''NEW LINE?'', ''ok''] \<and>
   apply_transforms ''Stop!  NEW LINE? ok'' = ''Stop! '' @ [CHR 0x0A, CHR 0x0A] @ '' ok''"
proof -
  have s: "stringToSentences ''Stop!  NEW LINE? ok'' = [''Stop!'', ''NEW LINE?'', ''ok'']"
    by code_simp
  have c: "\<not> spoken_newline_command ''Stop!''" "spoken_newline_command ''NEW LINE?''"
    "\<not> spoken_newline_command ''ok''"
    by code_simp+
  have "apply_transforms ''Stop!  NEW LINE? ok'' =
     join '' '' (map (\<lambda>s. if spoken_newline_command s then [CHR 0x0A, CHR 0x0A] else s)
       (stringToSentences ''Stop!  NEW LINE? ok''))"
    using newline_command_pipeline[of "''Stop!  NEW LINE? ok''"] by (elim conjE)
  also have "\<dots> = ''Stop! '' @ [CHR 0x0A, CHR 0x0A] @ '' ok''"
    unfolding s by (simp only: list.map c if_True if_False join.simps append.simps)
  finally show ?thesis using s by (rule conjI[rotated])
qed

section \<open>Properties of the rewrite request\<close>

lemma postProcessTranscript_off:
  "\<not> postProcess cfg \<or> postProcessPrompt cfg = [] \<Longrightarrow>
   postProcessTranscript parse net key cfg input = (JString input, [])"
  by (simp add: postProcessTranscript_def postProcessTranscript_begin_def)

lemma postProcessTranscript_on:
  "postProcess cfg \<Longrightarrow> postProcessPrompt cfg \<noteq> [] \<Longrightarrow>
   postProcessTranscript parse net key cfg input =
     (postProcessTranscript_settle parse input (net (lemur_request key cfg input)),
      [lemur_request key cfg input])"
  by (simp add: postProcessTranscript_def postProcessTranscript_begin_def)

lemma settle_Rejected: "postProcessTranscript_settle parse input Rejected = JString input"
  by (simp add: postProcessTranscript_settle_def)

lemma settle_unparseable:
  "parse b = None \<Longrightarrow> postProcessTranscript_settle parse input (Body b) = JString input"
  by (simp add: postProcessTranscript_settle_def)

lemma settle_no_response:
  "parse b = Some json \<Longrightarrow> get_property json ''response'' = Inr JUndefined \<Longrightarrow>
   postProcessTranscript_settle parse input (Body b) = JString input"
  by (simp add: postProcessTranscript_settle_def truthy_def)

lemma get_property_missing:
  "map_of kvs key = None \<Longrightarrow> get_property (JObject kvs) key = Inr JUndefined"
  by (simp add: get_property_def)

text \<open>
  Claim C6. \<open>postProcessTranscript\<close> returns its input and sends no request when
  post-processing is switched off or the prompt is empty; it returns its input when the
  request is rejected, when the response does not parse, and when the parsed response is
  an object without a \<open>response\<close> property; and it sends at most one request.
\<close>

theorem rewrite_is_best_effort:
  "(\<not> postProcess cfg \<or> postProcessPrompt cfg = [] \<longrightarrow>
      postProcessTranscript parse net key cfg input = (JString input, [])) \<and>
   (net (lemur_request key cfg input) = Rejected \<longrightarrow>
      fst (postProcessTranscript parse net key cfg input) = JString input) \<and>
   (\<forall>b. net (lemur_request key cfg input) = Body b \<and> parse b = None \<longrightarrow>
      fst (postProcessTranscript parse net key cfg input) = JString input) \<and>
   (\<forall>b kvs. net (lemur_request key cfg input) = Body b \<and> parse b = Some (JObject kvs) \<and>
      map_of kvs ''response'' = None \<longrightarrow>
      fst (postProcessTranscript parse net key cfg input) = JString input) \<and>
   length (snd (postProcessTranscript parse net key cfg input)) \<le> 1"
proof (cases "\<not> postProcess cfg \<or> postProcessPrompt cfg = []")
  case True
  then show ?thesis by (simp add: postProcessTranscript_off)
next
  case False
  then have on: "postProcessTranscript parse net key cfg input =
     (postProcessTranscript_settle parse input (net (lemur_request key cfg input)),
      [lemur_request key cfg input])"
    by (simp add: postProcessTranscript_on)
  show ?thesis
    unfolding on using False
    by (auto simp: settle_Rejected settle_unparseable settle_no_response get_property_missing)
qed

theorem rewrite_is_best_effort_witness:
  "postProcessTranscript (\<lambda>b. None) (\<lambda>q. Rejected) ''key'' (sample_settings\<lparr>postProcess := False\<rparr>) ''so it goes'' =
     (JString ''so it goes'', []) \<and>
   fst (postProcessTranscript (\<lambda>b. None) (\<lambda>q. Rejected) ''key'' sample_settings ''so it goes'') =
     JString ''so it goes'' \<and>
   fst (postProcessTranscript (\<lambda>b. None) (\<lambda>q. Body ''<html>'') ''key'' sample_settings ''so it goes'') =
     JString ''so it goes'' \<and>
   fst (postProcessTranscript (\<lambda>b. Some (JObject [(''error'', JString ''busy'')])) (\<lambda>q. Body ''{}'')
          ''key'' sample_settings ''so it goes'') = JString ''so it goes''"
proof (intro conjI)
  show "postProcessTranscript (\<lambda>b. None) (\<lambda>q. Rejected) ''key'' (sample_settings\<lparr>postProcess := False\<rparr>) ''so it goes'' =
     (JString ''so it goes'', [])"
    using rewrite_is_best_effort[of "sample_settings\<lparr>postProcess := False\<rparr>" "\<lambda>b. None" "\<lambda>q. Rejected" "''key''" "''so it goes''"]
    by simp
  show "fst (postProcessTranscript (\<lambda>b. None) (\<lambda>q. Rejected) ''key'' sample_settings ''so it goes'') =
     JString ''so it goes''"
    using rewrite_is_best_effort[of sample_settings "\<lambda>b. None" "\<lambda>q. Rejected" "''key''" "''so it goes''"]
    by simp
  show "fst (postProcessTranscript (\<lambda>b. None) (\<lambda>q. Body ''<html>'') ''key'' sample_settings ''so it goes'') =
     JString ''so it goes''"
    using rewrite_is_best_effort[of sample_settings "\<lambda>b. None" "\<lambda>q. Body ''<html>''" "''key''" "''so it goes''"]
    by simp
  have m: "map_of [(''error'', JString ''busy'')] ''response'' = None" by simp
  show "fst (postProcessTranscript (\<lambda>b. Some (JObject [(''error'', JString ''busy'')])) (\<lambda>q. Body ''{}'')
          ''key'' sample_settings ''so it goes'') = JString ''so it goes''"
    using rewrite_is_best_effort[of sample_settings "\<lambda>b. Some (JObject [(''error'', JString ''busy'')])" "\<lambda>q. Body ''{}''" "''key''" "''so it goes''"] m
    by blast
qed

section \<open>Properties of the audio re-chunking\<close>

lemma length_elems: "wf_view a \<Longrightarrow> length (elems a) = arr_length a"
  by (simp add: wf_view_def elems_def)

lemma wf_view_on [simp]: "wf_view (Int16Array_on b)"
  by (simp add: wf_view_def Int16Array_on_def)

lemma elems_on [simp]: "elems (Int16Array_on b) = b"
  by (simp add: elems_def Int16Array_on_def)

lemma mergeBuffers_eq:
  assumes "wf_view lhs" "wf_view rhs"
  shows "mergeBuffers lhs rhs = Int16Array_on (elems lhs @ elems rhs)"
proof -
  have la: "arr_length lhs = length (elems lhs)" and lb: "arr_length rhs = length (elems rhs)"
    using assms by (simp_all add: length_elems)
  show ?thesis
    unfolding mergeBuffers_def Let_def set_at_def new_Int16Array_def Int16Array_on_def la lb
    by simp
qed

lemma length_Uint8Array_on: "length (Uint8Array_on b) = 2 * length b"
  by (induction b) (simp_all add: Uint8Array_on_def)

lemma port_onmessage_eq:
  assumes ctx: "audioContext m = Some \<lparr>sampleRate = 16000\<rparr>" and wf: "wf_view (audioBufferQueue m)"
  shows "port_onmessage d m =
     (let queued = elems (audioBufferQueue m) @ d
      in if 1600 \<le> length queued
         then (m\<lparr>audioBufferQueue :=
                  \<lparr>arr_buffer = queued, arr_offset = 1600, arr_length = length queued - 1600\<rparr>\<rparr>,
               Some (Uint8Array_on queued))
         else (m\<lparr>audioBufferQueue := Int16Array_on queued\<rparr>, None))"
proof -
  have mb: "mergeBuffers (audioBufferQueue m) (Int16Array_on d) =
      Int16Array_on (elems (audioBufferQueue m) @ d)"
    using mergeBuffers_eq[OF wf wf_view_on, of d] by simp
  have "port_onmessage d m =
     (let queue = Int16Array_on (elems (audioBufferQueue m) @ d)
      in if 1600 \<le> arr_length queue
         then (m\<lparr>audioBufferQueue := subarray 1600 None queue\<rparr>,
               Some (Uint8Array_on (arr_buffer (subarray 0 (Some 1600) queue))))
         else (m\<lparr>audioBufferQueue := queue\<rparr>, None))"
    by (simp add: port_onmessage_def ctx Let_def mb)
  then show ?thesis
    by (simp add: Let_def subarray_def Int16Array_on_def)
qed


lemma port_messages_append:
  "port_messages (xs @ ys) m =
     (case port_messages xs m of
        (m1, o1) \<Rightarrow> (case port_messages ys m1 of (m2, o2) \<Rightarrow> (m2, o1 @ o2)))"
  by (induction xs arbitrary: m) (simp_all split: prod.splits)

lemma port_messages_quiet:
  assumes "audioContext m = Some \<lparr>sampleRate = 16000\<rparr>" "wf_view (audioBufferQueue m)"
    and "length (elems (audioBufferQueue m)) + length (concat ds) < 1600" "ds \<noteq> []"
  shows "port_messages ds m =
           (m\<lparr>audioBufferQueue := Int16Array_on (elems (audioBufferQueue m) @ concat ds)\<rparr>, [])"
  using assms
proof (induction ds arbitrary: m)
  case Nil
  then show ?case by simp
next
  case (Cons d ds)
  let ?m1 = "m\<lparr>audioBufferQueue := Int16Array_on (elems (audioBufferQueue m) @ d)\<rparr>"
  have step: "port_onmessage d m = (?m1, None)"
    using Cons.prems by (simp add: port_onmessage_eq Let_def)
  show ?case
  proof (cases "ds = []")
    case True
    then show ?thesis by (simp add: step)
  next
    case False
    have "port_messages ds ?m1 =
        (?m1\<lparr>audioBufferQueue := Int16Array_on (elems (audioBufferQueue ?m1) @ concat ds)\<rparr>, [])"
      using Cons.prems False by (intro Cons.IH) simp_all
    then show ?thesis by (simp add: step)
  qed
qed

lemma port_messages_emit:
  assumes ctx: "audioContext m = Some \<lparr>sampleRate = 16000\<rparr>" and wf: "wf_view (audioBufferQueue m)"
    and quiet: "length (elems (audioBufferQueue m)) + length (concat ds) < 1600"
    and full: "1600 \<le> length (elems (audioBufferQueue m)) + length (concat ds) + length d"
  shows "port_messages (ds @ [d]) m =
           (m\<lparr>audioBufferQueue :=
                \<lparr>arr_buffer = elems (audioBufferQueue m) @ concat ds @ d, arr_offset = 1600,
                 arr_length = length (elems (audioBufferQueue m) @ concat ds @ d) - 1600\<rparr>\<rparr>,
            [Uint8Array_on (elems (audioBufferQueue m) @ concat ds @ d)])"
proof (cases "ds = []")
  case True
  then show ?thesis using ctx wf full by (simp add: port_onmessage_eq Let_def)
next
  case False
  let ?m1 = "m\<lparr>audioBufferQueue := Int16Array_on (elems (audioBufferQueue m) @ concat ds)\<rparr>"
  have q: "port_messages ds m = (?m1, [])"
    using port_messages_quiet[OF ctx wf quiet False] .
  have "port_onmessage d ?m1 =
      (?m1\<lparr>audioBufferQueue :=
            \<lparr>arr_buffer = elems (audioBufferQueue m) @ concat ds @ d, arr_offset = 1600,
             arr_length = length (elems (audioBufferQueue m) @ concat ds @ d) - 1600\<rparr>\<rparr>,
       Some (Uint8Array_on (elems (audioBufferQueue m) @ concat ds @ d)))"
    using ctx full by (simp add: port_onmessage_eq Let_def)
  then show ?thesis by (simp add: port_messages_append q)
qed

lemma length_concat_replicate: "length (concat (replicate n xs)) = n * length xs"
  by (induction n) simp_all

lemma concat_replicate_replicate: "concat (replicate n (replicate k x)) = replicate (n * k) x"
  by (induction n) (simp_all add: replicate_add)

lemma recording_microphone:
  "audioContext (startRecording new_Microphone) = Some \<lparr>sampleRate = 16000\<rparr>"
  "wf_view (audioBufferQueue (startRecording new_Microphone))"
  "elems (audioBufferQueue (startRecording new_Microphone)) = []"
  by (simp_all add: startRecording_def new_Microphone_def SAMPLE_RATE_def wf_view_def
      new_Int16Array_def elems_def)

text \<open>
  Claim C8, on the code. With the audio worklet's blocks of 128 samples the thirteenth
  message brings the queue to 1664 samples. The buffer handed to the callback is then the
  whole of the queue's buffer, 1664 samples in 3328 bytes and not 1600 samples: the
  \<open>Uint8Array\<close> is made on \<open>subarray(0, totalSamples).buffer\<close>, and a sub-array shares the
  buffer of its array. The 64 samples past the first 1600 are in that buffer and stay in
  the queue as well.
\<close>

theorem rechunk_sends_whole_queue:
  "snd (port_messages (replicate 13 (replicate 128 x)) (startRecording new_Microphone)) =
     [Uint8Array_on (replicate 1664 x)] \<and>
   length (Uint8Array_on (replicate 1664 x)) = 2 * 1664 \<and>
   elems (audioBufferQueue
     (fst (port_messages (replicate 13 (replicate 128 x)) (startRecording new_Microphone)))) =
     replicate 64 x"
proof -
  have "replicate 13 (replicate 128 x) = replicate (12 + Suc 0) (replicate 128 x)"
    by simp
  also have "\<dots> = replicate 12 (replicate 128 x) @ replicate (Suc 0) (replicate 128 x)"
    by (rule replicate_add)
  finally have split:
    "replicate 13 (replicate 128 x) = replicate 12 (replicate 128 x) @ [replicate 128 x]"
    by simp
  have "concat (replicate 12 (replicate 128 x)) @ replicate 128 x =
        replicate (12 * 128) x @ replicate 128 x"
    by (simp only: concat_replicate_replicate)
  also have "\<dots> = replicate (12 * 128 + 128) x"
    by (rule replicate_add[symmetric])
  finally have cat: "concat (replicate 12 (replicate 128 x)) @ replicate 128 x = replicate 1664 x"
    by simp
  have e: "port_messages (replicate 12 (replicate 128 x) @ [replicate 128 x]) (startRecording new_Microphone) =
     ((startRecording new_Microphone)\<lparr>audioBufferQueue :=
          \<lparr>arr_buffer = replicate 1664 x, arr_offset = 1600, arr_length = 64\<rparr>\<rparr>,
      [Uint8Array_on (replicate 1664 x)])"
    using port_messages_emit[OF recording_microphone(1,2), of "replicate 12 (replicate 128 x)" "replicate 128 x"]
    by (simp add: recording_microphone(3) length_concat_replicate cat)
  show ?thesis
    unfolding split e by (simp add: length_Uint8Array_on elems_def)
qed

section \<open>Properties of the transcriber's steps\<close>

lemma called_fields [simp]:
  "isTranscribing (called c t) = isTranscribing t"
  "transcribedLines (called c t) = transcribedLines t"
  "activeEditor (called c t) = activeEditor t"
  "websocket (called c t) = websocket t"
  "editors (called c t) = editors t"
  "pending (called c t) = pending t"
  "wire (called c t) = wire t"
  "microphone (called c t) = microphone t"
  "settings (called c t) = settings t"
  "apiKey (called c t) = apiKey t"
  "calls (called c t) = calls t @ [c]"
  by (simp_all add: called_def)

lemma dispatch_fields [simp]:
  "isTranscribing (dispatchStateEffect e t) = isTranscribing t"
  "transcribedLines (dispatchStateEffect e t) = transcribedLines t"
  "activeEditor (dispatchStateEffect e t) = activeEditor t"
  "websocket (dispatchStateEffect e t) = websocket t"
  "editors (dispatchStateEffect e t) = editors t"
  "pending (dispatchStateEffect e t) = pending t"
  "wire (dispatchStateEffect e t) = wire t"
  "microphone (dispatchStateEffect e t) = microphone t"
  "settings (dispatchStateEffect e t) = settings t"
  "apiKey (dispatchStateEffect e t) = apiKey t"
  by (simp_all add: dispatchStateEffect_def split: option.splits)

lemma dispatch_calls:
  "calls (dispatchStateEffect e t) =
     calls t @ (case activeEditor t of None \<Rightarrow> [] | Some r \<Rightarrow> [Dispatch r e])"
  by (simp add: dispatchStateEffect_def split: option.splits)

lemma microphone_stop_fields [simp]:
  "isTranscribing (microphone_stopRecording t) = isTranscribing t"
  "transcribedLines (microphone_stopRecording t) = transcribedLines t"
  "activeEditor (microphone_stopRecording t) = activeEditor t"
  "websocket (microphone_stopRecording t) = websocket t"
  "editors (microphone_stopRecording t) = editors t"
  "pending (microphone_stopRecording t) = pending t"
  "wire (microphone_stopRecording t) = wire t"
  "settings (microphone_stopRecording t) = settings t"
  "apiKey (microphone_stopRecording t) = apiKey t"
  "calls (microphone_stopRecording t) = calls t @ [MicrophoneStop]"
  by (simp_all add: microphone_stopRecording_def)

text \<open>The teardown, by the state of the socket.\<close>

lemma teardown_no_socket:
  "websocket t = None \<or> websocket t = Some CLOSED \<or> websocket t = Some CLOSING \<Longrightarrow>
   stopTranscription_teardown t = (None, microphone_stopRecording (t\<lparr>isTranscribing := False\<rparr>))"
  by (auto simp: stopTranscription_teardown_def Let_def)

lemma teardown_open:
  "websocket t = Some OPEN \<Longrightarrow>
   stopTranscription_teardown t =
     (None, (socket_close (called (SocketSend terminate_session)
        ((microphone_stopRecording (t\<lparr>isTranscribing := False\<rparr>))
           \<lparr>wire := wire t @ [terminate_session]\<rparr>)))\<lparr>websocket := None\<rparr>)"
  by (simp add: stopTranscription_teardown_def Let_def socket_send_def)

lemma teardown_connecting:
  "websocket t = Some CONNECTING \<Longrightarrow>
   stopTranscription_teardown t =
     (Some InvalidStateError,
      called (SocketSend terminate_session) (microphone_stopRecording (t\<lparr>isTranscribing := False\<rparr>)))"
  by (simp add: stopTranscription_teardown_def Let_def socket_send_def)

lemma socket_cases:
  obtains "websocket t = None \<or> websocket t = Some CLOSED \<or> websocket t = Some CLOSING"
  | "websocket t = Some OPEN" | "websocket t = Some CONNECTING"
  by (cases "websocket t"; cases "the (websocket t)") auto

lemma socket_close_fields [simp]:
  "isTranscribing (socket_close t) = isTranscribing t"
  "transcribedLines (socket_close t) = transcribedLines t"
  "activeEditor (socket_close t) = activeEditor t"
  "editors (socket_close t) = editors t"
  "pending (socket_close t) = pending t"
  "wire (socket_close t) = wire t"
  "settings (socket_close t) = settings t"
  "apiKey (socket_close t) = apiKey t"
  "calls (socket_close t) = calls t @ [SocketClose]"
  by (simp_all add: socket_close_def)

lemma teardown_fields [simp]:
  "isTranscribing (snd (stopTranscription_teardown t)) = False"
  "transcribedLines (snd (stopTranscription_teardown t)) = transcribedLines t"
  "activeEditor (snd (stopTranscription_teardown t)) = activeEditor t"
  "editors (snd (stopTranscription_teardown t)) = editors t"
  "pending (snd (stopTranscription_teardown t)) = pending t"
  "settings (snd (stopTranscription_teardown t)) = settings t"
  "apiKey (snd (stopTranscription_teardown t)) = apiKey t"
  by (cases t rule: socket_cases;
      simp add: teardown_no_socket teardown_open teardown_connecting)+

lemma teardown_calls:
  "calls (snd (stopTranscription_teardown t)) =
     calls t @ MicrophoneStop #
       (case websocket t of
          Some OPEN \<Rightarrow> [SocketSend terminate_session, SocketClose]
        | Some CONNECTING \<Rightarrow> [SocketSend terminate_session]
        | _ \<Rightarrow> [])"
  by (cases t rule: socket_cases)
     (auto simp: teardown_no_socket teardown_open teardown_connecting)

lemma teardown_socket:
  "websocket (snd (stopTranscription_teardown t)) =
     (case websocket t of Some OPEN \<Rightarrow> None | s \<Rightarrow> s)"
  by (cases t rule: socket_cases)
     (auto simp: teardown_no_socket teardown_open teardown_connecting)


lemma stop_not_transcribing:
  "\<not> isTranscribing t \<Longrightarrow> stopTranscription h immediate t = (None, t)"
  by (simp add: stopTranscription.simps)

lemma stop_immediate:
  "isTranscribing t \<Longrightarrow>
   stopTranscription h True t = stopTranscription_teardown (t\<lparr>activeEditor := None\<rparr>)"
  by (simp add: stopTranscription.simps)

lemma stop_deferred:
  "isTranscribing t \<Longrightarrow>
   stopTranscription h False t = stopTranscription_teardown (runPostProcess h t)"
  by (simp add: stopTranscription.simps)

lemma checkEditor_live:
  "live h t \<Longrightarrow> checkEditor h t = (Inr True, called (CheckEditor True) t)"
  by (auto simp: checkEditor.simps live_def split: option.splits)

lemma checkEditor_gone:
  "\<not> live h t \<Longrightarrow>
   checkEditor h t =
     (case stopTranscription h True (called (CheckEditor False) t) of
        (Some e, t1) \<Rightarrow> (Inl e, t1)
      | (None, t1) \<Rightarrow> (Inr False, t1))"
  by (auto simp: checkEditor.simps live_def split: option.splits)

lemma runPostProcess_end_fields [simp]:
  "isTranscribing (runPostProcess_end t) = isTranscribing t"
  "transcribedLines (runPostProcess_end t) = no_lines"
  "activeEditor (runPostProcess_end t) = None"
  "websocket (runPostProcess_end t) = websocket t"
  "editors (runPostProcess_end t) = editors t"
  "pending (runPostProcess_end t) = pending t"
  "wire (runPostProcess_end t) = wire t"
  "settings (runPostProcess_end t) = settings t"
  "apiKey (runPostProcess_end t) = apiKey t"
  by (simp_all add: runPostProcess_end_def)

lemma runPostProcess_end_calls:
  "calls (runPostProcess_end t) =
     calls t @ (case activeEditor t of None \<Rightarrow> [] | Some r \<Rightarrow> [Dispatch r transcriptionEnd])"
  by (simp add: runPostProcess_end_def dispatch_calls)



lemma runPostProcess_try_frame:
  "isTranscribing (runPostProcess_try h t) = isTranscribing t"
  "websocket (runPostProcess_try h t) = websocket t"
  "wire (runPostProcess_try h t) = wire t"
  "editors (runPostProcess_try h t) = editors t"
  "settings (runPostProcess_try h t) = settings t"
  "apiKey (runPostProcess_try h t) = apiKey t"
  by (simp_all add: runPostProcess_try_def Let_def split: option.splits)

lemma runPostProcess_try_pending:
  "pending (runPostProcess_try h t) = pending t \<or>
   (\<exists>k. pending (runPostProcess_try h t) = pending t @ [k])"
  by (simp add: runPostProcess_try_def Let_def split: option.splits)


lemma runPostProcess_live:
  "live h t \<Longrightarrow>
   runPostProcess h t =
     (if range_from (transcribedLines t) = - 1
      then dispatchStateEffect transcriptionEnd ((called (CheckEditor True) t)\<lparr>transcribedLines := no_lines\<rparr>)
      else runPostProcess_try h (called (CheckEditor True) t))"
  by (simp add: runPostProcess.simps checkEditor_live)

lemma runPostProcess_gone:
  "\<not> live h t \<Longrightarrow> isTranscribing t \<Longrightarrow>
   runPostProcess h t =
     (case stopTranscription_teardown ((called (CheckEditor False) t)\<lparr>activeEditor := None\<rparr>) of
        (Some e, t1) \<Rightarrow> t1
      | (None, t1) \<Rightarrow> dispatchStateEffect transcriptionEnd (t1\<lparr>transcribedLines := no_lines\<rparr>))"
  by (simp add: runPostProcess.simps checkEditor_gone stop_immediate split: prod.splits option.splits)

lemma runPostProcess_pending:
  assumes "isTranscribing t"
  shows "pending (runPostProcess h t) = pending t \<or> (\<exists>k. pending (runPostProcess h t) = pending t @ [k])"
proof (cases "live h t")
  case True
  then show ?thesis
    using runPostProcess_try_pending[of h "called (CheckEditor True) t"]
    by (simp add: runPostProcess_live)
next
  case False
  obtain e t1 where td: "stopTranscription_teardown ((called (CheckEditor False) t)\<lparr>activeEditor := None\<rparr>) = (e, t1)"
    by (cases "stopTranscription_teardown ((called (CheckEditor False) t)\<lparr>activeEditor := None\<rparr>)")
  have "pending t1 = pending t"
    using teardown_fields(5)[of "(called (CheckEditor False) t)\<lparr>activeEditor := None\<rparr>"] td by simp
  then show ?thesis
    using False assms td by (simp add: runPostProcess_gone split: option.splits)
qed



lemma resume_fields [simp]:
  "pending (runPostProcess_resume h parse k resp t) = remove1 k (pending t)"
  "transcribedLines (runPostProcess_resume h parse k resp t) = no_lines"
  "activeEditor (runPostProcess_resume h parse k resp t) = None"
  "isTranscribing (runPostProcess_resume h parse k resp t) = isTranscribing t"
  "websocket (runPostProcess_resume h parse k resp t) = websocket t"
  "wire (runPostProcess_resume h parse k resp t) = wire t"
  by (simp_all add: runPostProcess_resume_def Let_def split: option.splits)






















lemma active_of_live: "live h t \<Longrightarrow> \<exists>r. activeEditor t = Some r \<and> isConnected h (editors t r)"
  by (simp add: live_def split: option.splits)

lemma handlePartial_live:
  assumes ed: "activeEditor t = Some r" and con: "isConnected h (editors t r)"
    and rep: "replaceRange h text (getCursor_from h (editors t r)) (getCursor_to h (editors t r))
                (editors t r) = Some ed1"
  shows "handlePartialTranscript h text t =
     (None,
      t\<lparr>editors := (editors t)(r := setSelection h (getCursor_from h (editors t r))
            ((getCursor_from h (editors t r))\<lparr>ch := ch (getCursor_from h (editors t r)) + length text\<rparr>) ed1),
        calls := calls t @
          [CheckEditor True,
           ReplaceRange r (JString text) (getCursor_from h (editors t r)) (getCursor_to h (editors t r)),
           SetSelection r (getCursor_from h (editors t r))
             ((getCursor_from h (editors t r))\<lparr>ch := ch (getCursor_from h (editors t r)) + length text\<rparr>)],
        transcribedLines := track_line (transcribedLines t) (line (getCursor_from h (editors t r)))\<rparr>)"
proof -
  have l: "live h t" using ed con by (simp add: live_def)
  show ?thesis
    unfolding handlePartialTranscript_def checkEditor_live[OF l]
    using ed rep by (simp add: Let_def called_def)
qed

lemma handlePartial_throws:
  assumes ed: "activeEditor t = Some r" and con: "isConnected h (editors t r)"
    and rep: "replaceRange h text (getCursor_from h (editors t r)) (getCursor_to h (editors t r))
                (editors t r) = None"
  shows "handlePartialTranscript h text t =
     (Some HostError,
      t\<lparr>calls := calls t @
          [CheckEditor True,
           ReplaceRange r (JString text) (getCursor_from h (editors t r)) (getCursor_to h (editors t r))]\<rparr>)"
proof -
  have l: "live h t" using ed con by (simp add: live_def)
  show ?thesis
    unfolding handlePartialTranscript_def checkEditor_live[OF l]
    using ed rep by (simp add: Let_def called_def)
qed

text \<open>A transcript that finds the editor gone: the nested immediate stop, and nothing else.\<close>

lemma checkEditor_gone_result:
  assumes "\<not> live h t"
  shows "checkEditor h t =
     (if isTranscribing t
      then (case stopTranscription_teardown ((called (CheckEditor False) t)\<lparr>activeEditor := None\<rparr>) of
              (Some e, t1) \<Rightarrow> (Inl e, t1) | (None, t1) \<Rightarrow> (Inr False, t1))
      else (Inr False, called (CheckEditor False) t))"
  using assms
  by (simp add: checkEditor_gone stop_immediate stop_not_transcribing)

lemma handlePartial_gone:
  assumes "\<not> live h t"
  shows "snd (handlePartialTranscript h text t) =
     (if isTranscribing t
      then snd (stopTranscription_teardown ((called (CheckEditor False) t)\<lparr>activeEditor := None\<rparr>))
      else called (CheckEditor False) t)"
  unfolding handlePartialTranscript_def checkEditor_gone_result[OF assms]
  by (simp split: prod.splits option.splits)

lemma handleFinal_gone:
  assumes "\<not> live h t"
  shows "snd (handleFinalTranscript h text t) =
     (if isTranscribing t
      then snd (stopTranscription_teardown ((called (CheckEditor False) t)\<lparr>activeEditor := None\<rparr>))
      else called (CheckEditor False) t)"
  unfolding handleFinalTranscript_def checkEditor_gone_result[OF assms]
  by (simp split: prod.splits option.splits)

lemma caught_snd:
  "transcribedLines (caught x) = transcribedLines (snd x)"
  "isTranscribing (caught x) = isTranscribing (snd x)"
  "pending (caught x) = pending (snd x)"
  "activeEditor (caught x) = activeEditor (snd x)"
  "editors (caught x) = editors (snd x)"
  "websocket (caught x) = websocket (snd x)"
  "wire (caught x) = wire (snd x)"
  by (cases x; cases "fst x"; simp add: caught_def)+

lemma caught_calls:
  "calls (caught x) = calls (snd x) @ (case fst x of None \<Rightarrow> [] | Some e \<Rightarrow> [ConsoleError])"
  by (cases x; cases "fst x"; simp add: caught_def)

text \<open>
  The immediate stop that a transcript on a detached editor sets off clears the flag and
  leaves the tracked lines as they are.
\<close>

lemma transcript_on_detached_editor:
  assumes gone: "\<not> live h t" and tr: "isTranscribing t" and ne: "text \<noteq> []"
    and mt: "message_type = ''PartialTranscript'' \<or> message_type = ''FinalTranscript''"
  shows "\<not> isTranscribing (websocket_onmessage h message_type text t)"
    and "transcribedLines (websocket_onmessage h message_type text t) = transcribedLines t"
    and "pending (websocket_onmessage h message_type text t) = pending t"
    and "activeEditor (websocket_onmessage h message_type text t) = None"
    and "editors (websocket_onmessage h message_type text t) = editors t"
  using mt ne tr
  by (auto simp: websocket_onmessage_def caught_snd handlePartial_gone[OF gone] handleFinal_gone[OF gone])

section \<open>The sample session, step by step\<close>

lemma run_append: "run h parse (xs @ ys) t = run h parse ys (run h parse xs t)"
  by (simp add: run_def)

lemma run_Cons: "run h parse (ev # evs) t = run h parse evs (step h parse ev t)"
  by (simp add: run_def)

lemma run_Nil: "run h parse [] t = t"
  by (simp add: run_def)

lemma plain_host_fields [simp]:
  "isConnected plain_host = attached"
  "getCursor_from plain_host ed = (if pos_le (anchor ed) (head ed) then anchor ed else head ed)"
  "getCursor_to plain_host ed = (if pos_le (anchor ed) (head ed) then head ed else anchor ed)"
  "getLine plain_host n ed = (if 0 \<le> n \<and> nat n < length (doc ed) then Some (doc ed ! nat n) else None)"
  "replaceRange plain_host = plain_replaceRange"
  "replaceRange_value plain_host v a b ed = None"
  "setSelection plain_host a b ed = ed\<lparr>anchor := a, head := b\<rparr>"
  "setCursor plain_host p ed = ed\<lparr>anchor := p, head := p\<rparr>"
  by (simp_all add: plain_host_def)

lemma sample_transcriber_fields [simp]:
  "apiKey sample_transcriber = ''key''"
  "microphone sample_transcriber = new_Microphone"
  "websocket sample_transcriber = None"
  "transcribedLines sample_transcriber = no_lines"
  "activeEditor sample_transcriber = None"
  "isTranscribing sample_transcriber = False"
  "settings sample_transcriber = sample_settings"
  "editors sample_transcriber = (\<lambda>r. sample_editor)"
  "dictationStateField sample_transcriber = (\<lambda>r. Inactive)"
  "wire sample_transcriber = []"
  "pending sample_transcriber = []"
  "calls sample_transcriber = []"
  by (simp_all add: sample_transcriber_def new_transcriber_def)

lemma sample_started:
  "startTranscription plain_host 0 (Some ''token'') True sample_transcriber =
     sample_transcriber
       \<lparr>microphone := startRecording new_Microphone, websocket := Some CONNECTING,
        activeEditor := Some 0, isTranscribing := True,
        dictationStateField := (\<lambda>r. Inactive)(0 := Recording),
        calls := [Dispatch 0 transcriptionStart]\<rparr>"
  by (simp add: startTranscription_def sample_transcriber_def new_transcriber_def Let_def
      dispatchStateEffect_def called_def)

lemma sample_typed:
  "plain_replaceRange ''hi'' \<lparr>line = 3, ch = 0\<rparr> \<lparr>line = 3, ch = 0\<rparr> sample_editor =
     Some (sample_editor\<lparr>doc := [''a'', ''b'', ''c'', ''hi'']\<rparr>)"
  by (simp add: plain_replaceRange_def sample_editor_def valid_pos_def pos_le_def)

lemma recording_reached:
  "run plain_host parse recording_session sample_transcriber = recording"
proof -
  let ?a = "sample_transcriber
       \<lparr>microphone := startRecording new_Microphone, websocket := Some OPEN,
        activeEditor := Some 0, isTranscribing := True,
        dictationStateField := (\<lambda>r. Inactive)(0 := Recording),
        calls := [Dispatch 0 transcriptionStart]\<rparr>"
  have s12: "run plain_host parse [Start 0 (Some ''token'') True, SocketState OPEN] sample_transcriber = ?a"
    by (simp add: run_Cons run_Nil step_def sample_started)
  have ed: "activeEditor ?a = Some 0" by simp
  have e0: "editors ?a 0 = sample_editor"
    by simp
  have con: "isConnected plain_host (editors ?a 0)"
    unfolding e0 by (simp add: sample_editor_def)
  have cur: "getCursor_from plain_host (editors ?a 0) = \<lparr>line = 3, ch = 0\<rparr>"
    "getCursor_to plain_host (editors ?a 0) = \<lparr>line = 3, ch = 0\<rparr>"
    unfolding e0 by (simp_all add: sample_editor_def)
  have rep: "replaceRange plain_host ''hi'' (getCursor_from plain_host (editors ?a 0))
      (getCursor_to plain_host (editors ?a 0)) (editors ?a 0) =
      Some (sample_editor\<lparr>doc := [''a'', ''b'', ''c'', ''hi'']\<rparr>)"
    unfolding cur unfolding e0 by (simp add: sample_typed)
  have hp: "handlePartialTranscript plain_host ''hi'' ?a = (None, recording)"
    unfolding handlePartial_live[OF ed con rep] cur
    unfolding e0
    by (simp add: recording_def sample_transcriber_def new_transcriber_def track_line_def
        no_lines_def typed_editor_def sample_editor_def numeral_2_eq_2)
  have split: "recording_session =
        [Start 0 (Some ''token'') True, SocketState OPEN] @ [SocketMessage ''PartialTranscript'' ''hi'']"
    by (simp add: recording_session_def)
  have "run plain_host parse recording_session sample_transcriber =
        run plain_host parse [SocketMessage ''PartialTranscript'' ''hi''] ?a"
    unfolding split run_append s12 ..
  also have "\<dots> = recording"
    by (simp add: run_Cons run_Nil step_def websocket_onmessage_def hp caught_def)
  finally show ?thesis .
qed

lemma recording_fields [simp]:
  "apiKey recording = ''key''"
  "microphone recording = startRecording new_Microphone"
  "websocket recording = Some OPEN"
  "transcribedLines recording = \<lparr>range_from = 3, range_to = 3\<rparr>"
  "activeEditor recording = Some 0"
  "isTranscribing recording"
  "settings recording = sample_settings"
  "editors recording = (\<lambda>r. sample_editor)(0 := typed_editor)"
  "dictationStateField recording = (\<lambda>r. Inactive)(0 := Recording)"
  "wire recording = []"
  "pending recording = []"
  by (simp_all add: recording_def)

lemma typed_editor_fields [simp]:
  "attached typed_editor"
  "anchor typed_editor = \<lparr>line = 3, ch = 0\<rparr>"
  "head typed_editor = \<lparr>line = 3, ch = 2\<rparr>"
  "doc typed_editor = [''a'', ''b'', ''c'', ''hi'']"
  "\<not> attached detached_editor"
  "anchor detached_editor = \<lparr>line = 3, ch = 0\<rparr>"
  "head detached_editor = \<lparr>line = 3, ch = 2\<rparr>"
  "doc detached_editor = [''a'', ''b'', ''c'', ''hi'']"
  by (simp_all add: typed_editor_def detached_editor_def)

lemma sample_begin:
  "postProcessTranscript_begin ''key'' sample_settings input =
     Some (lemur_request ''key'' sample_settings input)"
  by (simp add: postProcessTranscript_begin_def sample_settings_def)

lemma recording_live: "live plain_host recording"
  by (simp add: live_def)

lemma recording_lines:
  "getLines plain_host (editors recording 0)
     [range_from (transcribedLines recording) .. range_to (transcribedLines recording)] = Some [''hi'']"
  by simp

lemma recording_stopped: "snd (stopTranscription plain_host False recording) = stopping"
proof -
  let ?c = "called (CheckEditor True) recording"
  have rp: "runPostProcess plain_host recording = runPostProcess_try plain_host ?c"
    by (simp add: runPostProcess_live[OF recording_live])
  have t: "runPostProcess_try plain_host ?c =
      recording\<lparr>dictationStateField := (\<lambda>r. Inactive)(0 := Processing),
        pending := [sample_rewrite],
        calls := calls recording @
          [CheckEditor True, Dispatch 0 postprocessStart,
           Request (lemur_request ''key'' sample_settings ''hi'')]\<rparr>"
    by (simp add: runPostProcess_try_def Let_def dispatchStateEffect_def called_def sample_begin
        sample_rewrite_def)
  have o: "websocket (runPostProcess_try plain_host ?c) = Some OPEN"
    by (simp add: runPostProcess_try_frame)
  show ?thesis
    unfolding stop_deferred[OF recording_fields(6)] rp teardown_open[OF o]
    unfolding t
    by (simp add: stopping_def microphone_stopRecording_def socket_close_def called_def)
qed

lemma orphaned_reached:
  "run plain_host parse (recording_session @ [EditorChange 0 detached_editor]) sample_transcriber =
     orphaned"
  by (simp add: run_append recording_reached run_Cons run_Nil step_def orphaned_def)

lemma orphaned_fields [simp]:
  "websocket orphaned = Some OPEN"
  "transcribedLines orphaned = \<lparr>range_from = 3, range_to = 3\<rparr>"
  "activeEditor orphaned = Some 0"
  "isTranscribing orphaned"
  "wire orphaned = []"
  "pending orphaned = []"
  "calls orphaned = calls recording"
  by (simp_all add: orphaned_def)

lemma orphaned_gone: "\<not> live plain_host orphaned"
  by (simp add: live_def orphaned_def)

lemma start_keeps_tracked_lines:
  assumes "\<not> isTranscribing t"
  shows "isTranscribing (startTranscription h r (Some tok) True t)"
    and "transcribedLines (startTranscription h r (Some tok) True t) = transcribedLines t"
  using assms by (simp_all add: startTranscription_def Let_def)

text \<open>
  Claim C1, on the code. The sample session has tracked line 3 when its editor is
  detached. The next partial transcript finds the editor gone and stops the session
  through \<open>stopTranscription(true)\<close>. The session is then inactive and still tracks
  line 3: the immediate path never assigns \<open>transcribedLines\<close>, which is reset only in
  \<open>runPostProcess\<close>. \<open>startTranscription\<close> does not assign it either, so a session started
  afterwards on another editor begins with line 3 tracked.
\<close>

theorem immediate_stop_keeps_tracked_lines:
  "session_state
     (run plain_host parse
        (recording_session @
           [EditorChange 0 detached_editor, SocketMessage ''PartialTranscript'' ''hi there''])
        sample_transcriber) = Inactive \<and>
   transcribedLines
     (run plain_host parse
        (recording_session @
           [EditorChange 0 detached_editor, SocketMessage ''PartialTranscript'' ''hi there''])
        sample_transcriber) = \<lparr>range_from = 3, range_to = 3\<rparr> \<and>
   session_state
     (run plain_host parse
        (recording_session @
           [EditorChange 0 detached_editor, SocketMessage ''PartialTranscript'' ''hi there'',
            Start 1 (Some ''token'') True])
        sample_transcriber) = Recording \<and>
   transcribedLines
     (run plain_host parse
        (recording_session @
           [EditorChange 0 detached_editor, SocketMessage ''PartialTranscript'' ''hi there'',
            Start 1 (Some ''token'') True])
        sample_transcriber) = \<lparr>range_from = 3, range_to = 3\<rparr>"
proof -
  let ?x = "websocket_onmessage plain_host ''PartialTranscript'' ''hi there'' orphaned"
  have r: "run plain_host parse
        (recording_session @
           [EditorChange 0 detached_editor, SocketMessage ''PartialTranscript'' ''hi there''])
        sample_transcriber = ?x"
    using orphaned_reached[of parse]
    by (simp add: run_append run_Cons run_Nil step_def)
  have r': "run plain_host parse
        (recording_session @
           [EditorChange 0 detached_editor, SocketMessage ''PartialTranscript'' ''hi there'',
            Start 1 (Some ''token'') True])
        sample_transcriber = startTranscription plain_host 1 (Some ''token'') True ?x"
    using orphaned_reached[of parse]
    by (simp add: run_append run_Cons run_Nil step_def)
  have ne: "''hi there'' \<noteq> []" by simp
  note x = transcript_on_detached_editor[OF orphaned_gone orphaned_fields(4) ne disjI1[OF refl]]
  note y = start_keeps_tracked_lines[OF x(1), of plain_host 1 "''token''"]
  show ?thesis
    unfolding r r' using x(1,2,3) y by (simp add: session_state_def)
qed

text \<open>
  Claim C4, on the code. \<open>stopTranscription()\<close> is called on the sample session after its
  editor was detached. \<open>runPostProcess\<close> calls \<open>checkEditor\<close>, which calls
  \<open>stopTranscription(true)\<close> while \<open>isTranscribing\<close> still holds; that inner call stops
  the microphone and closes the socket, and the outer call then clears the flag and stops
  the microphone once more.
\<close>

theorem stop_on_detached_editor_tears_down_twice:
  "calls (run plain_host parse (recording_session @ [EditorChange 0 detached_editor, Stop False])
            sample_transcriber) =
     [Dispatch 0 transcriptionStart, CheckEditor True,
      ReplaceRange 0 (JString ''hi'') \<lparr>line = 3, ch = 0\<rparr> \<lparr>line = 3, ch = 0\<rparr>,
      SetSelection 0 \<lparr>line = 3, ch = 0\<rparr> \<lparr>line = 3, ch = 2\<rparr>,
      CheckEditor False, MicrophoneStop, SocketSend terminate_session, SocketClose,
      MicrophoneStop]"
proof -
  have r: "run plain_host parse (recording_session @ [EditorChange 0 detached_editor, Stop False])
            sample_transcriber = snd (stopTranscription plain_host False orphaned)"
    using orphaned_reached[of parse]
    by (simp add: run_append run_Cons run_Nil step_def)
  let ?i = "(called (CheckEditor False) orphaned)\<lparr>activeEditor := None\<rparr>"
  have o: "websocket ?i = Some OPEN" by simp
  have rp: "runPostProcess plain_host orphaned =
      dispatchStateEffect transcriptionEnd
        ((snd (stopTranscription_teardown ?i))\<lparr>transcribedLines := no_lines\<rparr>)"
    by (simp add: runPostProcess_gone[OF orphaned_gone orphaned_fields(4)] teardown_open[OF o])
  have n: "websocket (runPostProcess plain_host orphaned) = None"
    unfolding rp by (simp add: teardown_socket)
  have c: "calls (runPostProcess plain_host orphaned) =
      calls recording @ [CheckEditor False, MicrophoneStop, SocketSend terminate_session, SocketClose]"
    unfolding rp by (simp add: dispatch_calls teardown_calls)
  show ?thesis
    unfolding r stop_deferred[OF orphaned_fields(4)]
    by (simp add: teardown_calls n c) (simp add: recording_def)
qed


lemma sample_settled:
  "postProcessTranscript_settle sample_parse input (Body b) = JString ''Hi.''"
  by (simp add: postProcessTranscript_settle_def sample_parse_def get_property_def truthy_def)


lemma detached_replaced:
  "plain_replaceRange ''Hi.'' \<lparr>line = 3, ch = 0\<rparr> \<lparr>line = 3, ch = Suc (Suc 0)\<rparr> detached_editor =
     Some (detached_editor\<lparr>doc := [''a'', ''b'', ''c'', ''Hi.'']\<rparr>)"
  by (simp add: plain_replaceRange_def valid_pos_def pos_le_def)

lemma stopping_fields [simp]:
  "transcribedLines stopping = \<lparr>range_from = 3, range_to = 3\<rparr>"
  "activeEditor stopping = Some 0"
  "\<not> isTranscribing stopping"
  "editors stopping = (\<lambda>r. sample_editor)(0 := typed_editor)"
  "pending stopping = [sample_rewrite]"
  "calls stopping = calls recording @
          [CheckEditor True, Dispatch 0 postprocessStart,
           Request (lemur_request ''key'' sample_settings ''hi''),
           MicrophoneStop, SocketSend terminate_session, SocketClose]"
  by (simp_all add: stopping_def)

text \<open>
  Claim C3, on the code. The sample session is stopped with \<open>stopTranscription()\<close>; while
  the rewrite request is in flight the editor is detached; then the request settles.
  \<open>runPostProcess\<close> resumes after its \<open>await\<close> and calls \<open>replaceRange\<close> on the editor it
  has held since before the \<open>await\<close>, with no call of \<open>checkEditor\<close> in between: the last
  check is the one from before the request was sent. The detached editor is written to.
\<close>

theorem rewrite_lands_in_detached_editor:
  "\<not> attached (editors (run plain_host sample_parse
      (recording_session @
         [Stop False, EditorChange 0 detached_editor, RewriteSettled sample_rewrite (Body b)])
      sample_transcriber) 0) \<and>
   doc (editors (run plain_host sample_parse
      (recording_session @
         [Stop False, EditorChange 0 detached_editor, RewriteSettled sample_rewrite (Body b)])
      sample_transcriber) 0) = [''a'', ''b'', ''c'', ''Hi.''] \<and>
   calls (run plain_host sample_parse
      (recording_session @
         [Stop False, EditorChange 0 detached_editor, RewriteSettled sample_rewrite (Body b)])
      sample_transcriber) =
     [Dispatch 0 transcriptionStart, CheckEditor True,
      ReplaceRange 0 (JString ''hi'') \<lparr>line = 3, ch = 0\<rparr> \<lparr>line = 3, ch = 0\<rparr>,
      SetSelection 0 \<lparr>line = 3, ch = 0\<rparr> \<lparr>line = 3, ch = 2\<rparr>,
      CheckEditor True, Dispatch 0 postprocessStart,
      Request (lemur_request ''key'' sample_settings ''hi''),
      MicrophoneStop, SocketSend terminate_session, SocketClose,
      ReplaceRange 0 (JString ''Hi.'') \<lparr>line = 3, ch = 0\<rparr> \<lparr>line = 3, ch = 2\<rparr>,
      Dispatch 0 transcriptionEnd]"
proof -
  let ?d = "stopping\<lparr>editors := (editors stopping)(0 := detached_editor)\<rparr>"
  have r: "run plain_host sample_parse
      (recording_session @
         [Stop False, EditorChange 0 detached_editor, RewriteSettled sample_rewrite (Body b)])
      sample_transcriber = runPostProcess_resume plain_host sample_parse sample_rewrite (Body b) ?d"
    by (simp add: run_append recording_reached run_Cons run_Nil step_def recording_stopped)
  have k: "rw_request sample_rewrite = Some (lemur_request ''key'' sample_settings ''hi'')"
    "rw_editor sample_rewrite = 0" "rw_text sample_rewrite = ''hi''"
    by (simp_all add: sample_rewrite_def)
  have x: "runPostProcess_resume plain_host sample_parse sample_rewrite (Body b) ?d =
      runPostProcess_end
        ((called (ReplaceRange 0 (JString ''Hi.'') \<lparr>line = 3, ch = 0\<rparr> \<lparr>line = 3, ch = Suc (Suc 0)\<rparr>)
            (?d\<lparr>pending := []\<rparr>))
           \<lparr>editors := (editors ?d)(0 := detached_editor\<lparr>doc := [''a'', ''b'', ''c'', ''Hi.'']\<rparr>)\<rparr>)"
    unfolding runPostProcess_resume_def
    by (simp add: Let_def k sample_settled replaceRange_any_def detached_replaced)
  show ?thesis
    unfolding r x
    by (simp add: runPostProcess_end_calls) (simp add: recording_def numeral_2_eq_2)
qed

section \<open>Audio frames and the socket\<close>

lemma onAudioCallback_closed:
  "\<not> (isTranscribing t \<and> websocket t = Some OPEN) \<Longrightarrow> onAudioCallback buffer t = (None, t)"
  by (auto simp: onAudioCallback_def)

lemma onAudioCallback_open:
  "isTranscribing t \<Longrightarrow> websocket t = Some OPEN \<Longrightarrow>
   onAudioCallback buffer t =
     (None, called (SocketSend (Binary buffer)) (t\<lparr>wire := wire t @ [Binary buffer]\<rparr>))"
  by (simp add: onAudioCallback_def socket_send_def)

lemma worklet_message_closed:
  assumes "\<not> (isTranscribing t \<and> websocket t = Some OPEN)"
  shows "worklet_message audio_data t = t\<lparr>microphone := fst (port_onmessage audio_data (microphone t))\<rparr>"
proof (cases "port_onmessage audio_data (microphone t)")
  case (Pair m out)
  have c: "\<not> (isTranscribing (t\<lparr>microphone := m\<rparr>) \<and> websocket (t\<lparr>microphone := m\<rparr>) = Some OPEN)"
    using assms by simp
  show ?thesis
    by (cases out) (simp_all add: worklet_message_def Pair onAudioCallback_closed[OF c])
qed

lemma worklet_messages_closed:
  assumes "\<not> (isTranscribing t \<and> websocket t = Some OPEN)"
  shows "wire (fold worklet_message ds t) = wire t \<and> calls (fold worklet_message ds t) = calls t"
  using assms
proof (induction ds arbitrary: t)
  case Nil
  then show ?case by simp
next
  case (Cons d ds)
  let ?t = "t\<lparr>microphone := fst (port_onmessage d (microphone t))\<rparr>"
  have c: "\<not> (isTranscribing ?t \<and> websocket ?t = Some OPEN)" using Cons.prems by simp
  from Cons.IH[OF c] show ?case
    by (simp add: worklet_message_closed[OF Cons.prems])
qed

text \<open>
  Claim C9. The audio callback never throws. While the session is not transcribing or its
  socket is not open (there is none, or it is connecting, closing or closed) the callback
  changes nothing at all: the frame is not sent and not kept. With an open socket of a
  transcribing session the frame goes on the wire. A run of worklet messages outside that
  state leaves the wire, and the calls made, as they were.
\<close>

theorem frames_dropped_unless_open:
  "fst (onAudioCallback buffer t) = None \<and>
   (\<not> (isTranscribing t \<and> websocket t = Some OPEN) \<longrightarrow>
      onAudioCallback buffer t = (None, t) \<and>
      wire (fold worklet_message ds t) = wire t \<and>
      calls (fold worklet_message ds t) = calls t) \<and>
   (isTranscribing t \<and> websocket t = Some OPEN \<longrightarrow>
      wire (snd (onAudioCallback buffer t)) = wire t @ [Binary buffer])"
proof (cases "isTranscribing t \<and> websocket t = Some OPEN")
  case True
  then show ?thesis by (simp add: onAudioCallback_open)
next
  case False
  then show ?thesis
    using worklet_messages_closed[OF False, of ds] by (auto simp: onAudioCallback_closed)
qed

lemma connecting_fields [simp]:
  "isTranscribing connecting"
  "websocket connecting = Some CONNECTING"
  "wire connecting = []"
  by (simp_all add: connecting_def sample_started)

theorem frames_dropped_unless_open_witness:
  "onAudioCallback [1, 2] connecting = (None, connecting) \<and>
   socket_send (Binary [1, 2]) connecting =
     (Some InvalidStateError, called (SocketSend (Binary [1, 2])) connecting) \<and>
   onAudioCallback [1, 2] sample_transcriber = (None, sample_transcriber) \<and>
   wire (snd (onAudioCallback [1, 2] recording)) = [Binary [1, 2]]"
proof -
  have c: "\<not> (isTranscribing connecting \<and> websocket connecting = Some OPEN)" by simp
  have s: "\<not> (isTranscribing sample_transcriber \<and> websocket sample_transcriber = Some OPEN)" by simp
  have r: "isTranscribing recording \<and> websocket recording = Some OPEN" by simp
  have t: "socket_send (Binary [1, 2]) connecting =
     (Some InvalidStateError, called (SocketSend (Binary [1, 2])) connecting)"
    by (simp add: socket_send_def)
  from frames_dropped_unless_open[of "[1, 2]" connecting "[]"] c
    frames_dropped_unless_open[of "[1, 2]" sample_transcriber "[]"] s
    frames_dropped_unless_open[of "[1, 2]" recording "[]"] r t
  show ?thesis by simp
qed

section \<open>Final transcripts\<close>

lemma handleFinal_live:
  assumes ed: "activeEditor t = Some r" and con: "isConnected h (editors t r)"
    and rep: "replaceRange h (final_insert text) (getCursor_from h (editors t r))
                (getCursor_to h (editors t r)) (editors t r) = Some ed1"
  shows "handleFinalTranscript h text t =
     (None,
      t\<lparr>editors := (editors t)(r := setCursor h
            ((getCursor_from h (editors t r))
               \<lparr>ch := ch (getCursor_from h (editors t r)) + length (final_insert text)\<rparr>) ed1),
        calls := calls t @
          [CheckEditor True,
           ReplaceRange r (JString (final_insert text)) (getCursor_from h (editors t r))
             (getCursor_to h (editors t r)),
           SetCursor r ((getCursor_from h (editors t r))
               \<lparr>ch := ch (getCursor_from h (editors t r)) + length (final_insert text)\<rparr>)],
        transcribedLines := track_line (transcribedLines t)
          (line (getCursor_from h (setCursor h
            ((getCursor_from h (editors t r))
               \<lparr>ch := ch (getCursor_from h (editors t r)) + length (final_insert text)\<rparr>) ed1)))\<rparr>)"
proof -
  have l: "live h t" using ed con by (simp add: live_def)
  show ?thesis
    unfolding handleFinalTranscript_def checkEditor_live[OF l]
    using ed rep by (simp add: Let_def called_def final_insert_def)
qed

lemma length_split_lines:
  "length (split_lines cur s) = Suc (length (filter (\<lambda>c. c = CHR 0x0A) s))"
  by (induction s arbitrary: cur) simp_all

lemma end_of_insert_line:
  "line (end_of_insert p s) = line p + int (length (filter (\<lambda>c. c = CHR 0x0A) s))"
  by (simp add: end_of_insert_def Let_def length_split_lines)

lemma newline_moves_end:
  assumes "CHR 0x0A \<in> set s"
  shows "p\<lparr>ch := ch p + length s\<rparr> \<noteq> end_of_insert p s"
proof
  assume e: "p\<lparr>ch := ch p + length s\<rparr> = end_of_insert p s"
  have "filter (\<lambda>c. c = CHR 0x0A) s \<noteq> []"
    using assms by (simp add: filter_empty_conv)
  then have "line (end_of_insert p s) \<noteq> line p"
    by (simp add: end_of_insert_line)
  moreover have "line (p\<lparr>ch := ch p + length s\<rparr>) = line p" by simp
  ultimately show False using e by simp
qed

text \<open>
  Claim C10. A final transcript that finds its editor attached, and whose \<open>replaceRange\<close>
  does not throw, inserts the transformed text (with a space after it unless it ends in a
  newline) over the selection and then calls \<open>setCursor\<close> with the start of the selection
  moved right by the length of the inserted text, on the same line. When the inserted
  text has a newline in it this is not where the inserted text ends in the document.
\<close>

theorem final_cursor_stays_on_line:
  "activeEditor t = Some r \<and> isConnected h (editors t r) \<and>
   replaceRange h (final_insert text) (getCursor_from h (editors t r))
     (getCursor_to h (editors t r)) (editors t r) = Some ed1 \<longrightarrow>
   fst (handleFinalTranscript h text t) = None \<and>
   calls (snd (handleFinalTranscript h text t)) =
     calls t @
       [CheckEditor True,
        ReplaceRange r (JString (final_insert text)) (getCursor_from h (editors t r))
          (getCursor_to h (editors t r)),
        SetCursor r \<lparr>line = line (getCursor_from h (editors t r)),
                     ch = ch (getCursor_from h (editors t r)) + length (final_insert text)\<rparr>] \<and>
   editors (snd (handleFinalTranscript h text t)) r =
     setCursor h \<lparr>line = line (getCursor_from h (editors t r)),
                  ch = ch (getCursor_from h (editors t r)) + length (final_insert text)\<rparr> ed1 \<and>
   (CHR 0x0A \<in> set (final_insert text) \<longrightarrow>
      \<lparr>line = line (getCursor_from h (editors t r)),
       ch = ch (getCursor_from h (editors t r)) + length (final_insert text)\<rparr> \<noteq>
      end_of_insert (getCursor_from h (editors t r)) (final_insert text))"
proof (intro impI, elim conjE)
  assume a: "activeEditor t = Some r" "isConnected h (editors t r)"
    "replaceRange h (final_insert text) (getCursor_from h (editors t r))
       (getCursor_to h (editors t r)) (editors t r) = Some ed1"
  let ?from = "getCursor_from h (editors t r)"
  have p: "?from\<lparr>ch := ch ?from + length (final_insert text)\<rparr> =
      \<lparr>line = line ?from, ch = ch ?from + length (final_insert text)\<rparr>"
    by simp
  have n: "CHR 0x0A \<in> set (final_insert text) \<longrightarrow>
      \<lparr>line = line ?from, ch = ch ?from + length (final_insert text)\<rparr> \<noteq>
      end_of_insert ?from (final_insert text)"
    using newline_moves_end[of "final_insert text" ?from] unfolding p by blast
  show "fst (handleFinalTranscript h text t) = None \<and>
   calls (snd (handleFinalTranscript h text t)) =
     calls t @
       [CheckEditor True,
        ReplaceRange r (JString (final_insert text)) ?from (getCursor_to h (editors t r)),
        SetCursor r \<lparr>line = line ?from, ch = ch ?from + length (final_insert text)\<rparr>] \<and>
   editors (snd (handleFinalTranscript h text t)) r =
     setCursor h \<lparr>line = line ?from, ch = ch ?from + length (final_insert text)\<rparr> ed1 \<and>
   (CHR 0x0A \<in> set (final_insert text) \<longrightarrow>
      \<lparr>line = line ?from, ch = ch ?from + length (final_insert text)\<rparr> \<noteq>
      end_of_insert ?from (final_insert text))"
    unfolding handleFinal_live[OF a] using n by (simp add: p)
qed

lemma new_line_spoken: "final_insert ''New line.'' = [CHR 0x0A, CHR 0x0A]"
  by code_simp

lemma paragraph_typed:
  "plain_replaceRange [CHR 0x0A, CHR 0x0A] \<lparr>line = 3, ch = 0\<rparr> \<lparr>line = 3, ch = 2\<rparr> typed_editor =
     Some (typed_editor\<lparr>doc := [''a'', ''b'', ''c'', '''', '''', '''']\<rparr>)"
  by (simp add: plain_replaceRange_def valid_pos_def pos_le_def)

lemma paragraph_end:
  "end_of_insert \<lparr>line = 3, ch = 0\<rparr> [CHR 0x0A, CHR 0x0A] = \<lparr>line = 5, ch = 0\<rparr>"
  by (simp add: end_of_insert_def)

theorem final_cursor_stays_on_line_witness:
  "calls (snd (handleFinalTranscript plain_host ''New line.'' recording)) =
     calls recording @
       [CheckEditor True,
        ReplaceRange 0 (JString [CHR 0x0A, CHR 0x0A]) \<lparr>line = 3, ch = 0\<rparr> \<lparr>line = 3, ch = 2\<rparr>,
        SetCursor 0 \<lparr>line = 3, ch = 2\<rparr>] \<and>
   doc (editors (snd (handleFinalTranscript plain_host ''New line.'' recording)) 0) =
     [''a'', ''b'', ''c'', '''', '''', ''''] \<and>
   end_of_insert \<lparr>line = 3, ch = 0\<rparr> [CHR 0x0A, CHR 0x0A] = \<lparr>line = 5, ch = 0\<rparr>"
proof -
  have a: "activeEditor recording = Some 0 \<and> isConnected plain_host (editors recording 0) \<and>
     replaceRange plain_host (final_insert ''New line.'') (getCursor_from plain_host (editors recording 0))
       (getCursor_to plain_host (editors recording 0)) (editors recording 0) =
     Some (typed_editor\<lparr>doc := [''a'', ''b'', ''c'', '''', '''', '''']\<rparr>)"
    by (simp add: new_line_spoken pos_le_def paragraph_typed)
  from final_cursor_stays_on_line[of recording 0 plain_host "''New line.''"
      "typed_editor\<lparr>doc := [''a'', ''b'', ''c'', '''', '''', '''']\<rparr>"] a
  show ?thesis
    by (simp add: new_line_spoken pos_le_def paragraph_end)
qed

section \<open>Partial transcripts\<close>

lemma selection_lines_append:
  "selection_lines (xs @ ys) = selection_lines xs @ selection_lines ys"
  by (induction xs rule: selection_lines.induct) simp_all

lemma partial_step:
  "\<exists>cs. calls (websocket_onmessage h ''PartialTranscript'' text t) = calls t @ cs \<and>
        transcribedLines (websocket_onmessage h ''PartialTranscript'' text t) =
          foldl track_line (transcribedLines t) (selection_lines cs)"
proof (cases "text = []")
  case True
  then show ?thesis by (simp add: websocket_onmessage_def)
next
  case False
  then have w: "websocket_onmessage h ''PartialTranscript'' text t =
      caught (handlePartialTranscript h text t)"
    by (simp add: websocket_onmessage_def)
  show ?thesis
  proof (cases "live h t")
    case True
    then obtain r where ed: "activeEditor t = Some r" and con: "isConnected h (editors t r)"
      using active_of_live by blast
    show ?thesis
    proof (cases "replaceRange h text (getCursor_from h (editors t r))
        (getCursor_to h (editors t r)) (editors t r)")
      case None
      show ?thesis
        unfolding w handlePartial_throws[OF ed con None]
        by (simp add: caught_def called_def)
    next
      case (Some ed1)
      show ?thesis
        unfolding w handlePartial_live[OF ed con Some]
        by (simp add: caught_def)
    qed
  next
    case gone: False
    let ?i = "(called (CheckEditor False) t)\<lparr>activeEditor := None\<rparr>"
    have wi: "websocket ?i = websocket t" by simp
    have s: "selection_lines
        (case websocket t of
           Some OPEN \<Rightarrow> [SocketSend terminate_session, SocketClose]
         | Some CONNECTING \<Rightarrow> [SocketSend terminate_session]
         | _ \<Rightarrow> []) = []"
      by (cases t rule: socket_cases) auto
    have e: "selection_lines (case fst (handlePartialTranscript h text t) of
        None \<Rightarrow> [] | Some e \<Rightarrow> [ConsoleError]) = []"
      by (cases "fst (handlePartialTranscript h text t)") simp_all
    show ?thesis
    proof (cases "isTranscribing t")
      case True
      have c: "calls (caught (handlePartialTranscript h text t)) =
          calls t @ ([CheckEditor False, MicrophoneStop] @
            (case websocket t of
               Some OPEN \<Rightarrow> [SocketSend terminate_session, SocketClose]
             | Some CONNECTING \<Rightarrow> [SocketSend terminate_session]
             | _ \<Rightarrow> []) @
            (case fst (handlePartialTranscript h text t) of None \<Rightarrow> [] | Some e \<Rightarrow> [ConsoleError]))"
        using True by (simp add: caught_calls handlePartial_gone[OF gone] teardown_calls wi)
      have l: "transcribedLines (caught (handlePartialTranscript h text t)) = transcribedLines t"
        using True by (simp add: caught_snd handlePartial_gone[OF gone])
      show ?thesis
        unfolding w
        by (rule exI, rule conjI, rule c) (simp add: selection_lines_append s e l)
    next
      case False
      have c: "calls (caught (handlePartialTranscript h text t)) =
          calls t @ ([CheckEditor False] @
            (case fst (handlePartialTranscript h text t) of None \<Rightarrow> [] | Some e \<Rightarrow> [ConsoleError]))"
        using False by (simp add: caught_calls handlePartial_gone[OF gone])
      have l: "transcribedLines (caught (handlePartialTranscript h text t)) = transcribedLines t"
        using False by (simp add: caught_snd handlePartial_gone[OF gone])
      show ?thesis
        unfolding w
        by (rule exI, rule conjI, rule c) (simp add: selection_lines_append e l)
    qed
  qed
qed

lemma partials_track:
  "\<exists>cs. calls (partials h texts t) = calls t @ cs \<and>
        transcribedLines (partials h texts t) =
          foldl track_line (transcribedLines t) (selection_lines cs)"
proof (induction texts arbitrary: t)
  case Nil
  then show ?case by (simp add: partials_def)
next
  case (Cons x xs)
  let ?t = "websocket_onmessage h ''PartialTranscript'' x t"
  obtain cs where cs: "calls ?t = calls t @ cs"
    "transcribedLines ?t = foldl track_line (transcribedLines t) (selection_lines cs)"
    using partial_step[of h x t] by blast
  obtain ds where ds: "calls (partials h xs ?t) = calls ?t @ ds"
    "transcribedLines (partials h xs ?t) =
       foldl track_line (transcribedLines ?t) (selection_lines ds)"
    using Cons.IH[of ?t] by blast
  have p: "partials h (x # xs) t = partials h xs ?t"
    by (simp add: partials_def)
  show ?case
    unfolding p
    by (rule exI[of _ "cs @ ds"]) (simp add: cs ds selection_lines_append)
qed

lemma track_line_span:
  assumes "\<forall>l\<in>set ls. 0 \<le> l" "0 \<le> l"
  shows "track_line (span_of ls) l = span_of (ls @ [l])"
proof (cases "ls = []")
  case True
  then show ?thesis by (simp add: span_of_def track_line_def no_lines_def)
next
  case False
  then have "Min (set ls) \<in> set ls" by simp
  then have "0 \<le> Min (set ls)" using assms(1) by blast
  then have "Min (set ls) \<noteq> - 1" by linarith
  then have "range_from (span_of ls) \<noteq> - 1" using False by (simp add: span_of_def)
  then show ?thesis
    using False by (simp add: span_of_def track_line_def min.commute max.commute)
qed

lemma foldl_track_line_span:
  assumes "\<forall>l\<in>set ks. 0 \<le> l" "\<forall>l\<in>set ls. 0 \<le> l"
  shows "foldl track_line (span_of ks) ls = span_of (ks @ ls)"
  using assms
proof (induction ls arbitrary: ks)
  case Nil
  then show ?case by simp
next
  case (Cons l ls)
  have "foldl track_line (span_of ks) (l # ls) = foldl track_line (span_of (ks @ [l])) ls"
    using Cons.prems by (simp add: track_line_span)
  also have "\<dots> = span_of ((ks @ [l]) @ ls)"
    using Cons.prems by (intro Cons.IH) auto
  finally show ?case by simp
qed

text \<open>
  Claim C7, as the code has it. A partial transcript that finds its editor attached, and
  whose \<open>replaceRange\<close> does not throw, replaces the selection by its text and then
  selects the inserted text: \<open>setSelection\<close> is called with the start of the old selection
  as anchor and, as head, that position moved right by the length of the text. The
  tracked range takes in the line of the anchor. After any run of partial transcripts on
  a transcriber that tracked no line, the tracked range runs from the least to the
  greatest of the lines at which the run set a selection, those lines being line numbers
  (not negative); it is still empty when the run set none.
\<close>

theorem partial_selects_text_and_tracks_lines:
  "(activeEditor t = Some r \<and> isConnected h (editors t r) \<and>
    replaceRange h text (getCursor_from h (editors t r)) (getCursor_to h (editors t r))
      (editors t r) = Some ed1 \<longrightarrow>
    handlePartialTranscript h text t =
      (None,
       t\<lparr>editors := (editors t)(r := setSelection h (getCursor_from h (editors t r))
             ((getCursor_from h (editors t r))\<lparr>ch := ch (getCursor_from h (editors t r)) + length text\<rparr>) ed1),
         calls := calls t @
           [CheckEditor True,
            ReplaceRange r (JString text) (getCursor_from h (editors t r)) (getCursor_to h (editors t r)),
            SetSelection r (getCursor_from h (editors t r))
              ((getCursor_from h (editors t r))\<lparr>ch := ch (getCursor_from h (editors t r)) + length text\<rparr>)],
         transcribedLines := track_line (transcribedLines t) (line (getCursor_from h (editors t r)))\<rparr>)) \<and>
   (transcribedLines t = no_lines \<and>
    (\<forall>l\<in>set (selection_lines (drop (length (calls t)) (calls (partials h texts t)))). 0 \<le> l) \<longrightarrow>
    transcribedLines (partials h texts t) =
      span_of (selection_lines (drop (length (calls t)) (calls (partials h texts t)))))"
proof (intro conjI impI)
  assume "activeEditor t = Some r \<and> isConnected h (editors t r) \<and>
    replaceRange h text (getCursor_from h (editors t r)) (getCursor_to h (editors t r))
      (editors t r) = Some ed1"
  then show "handlePartialTranscript h text t =
      (None,
       t\<lparr>editors := (editors t)(r := setSelection h (getCursor_from h (editors t r))
             ((getCursor_from h (editors t r))\<lparr>ch := ch (getCursor_from h (editors t r)) + length text\<rparr>) ed1),
         calls := calls t @
           [CheckEditor True,
            ReplaceRange r (JString text) (getCursor_from h (editors t r)) (getCursor_to h (editors t r)),
            SetSelection r (getCursor_from h (editors t r))
              ((getCursor_from h (editors t r))\<lparr>ch := ch (getCursor_from h (editors t r)) + length text\<rparr>)],
         transcribedLines := track_line (transcribedLines t) (line (getCursor_from h (editors t r)))\<rparr>)"
    using handlePartial_live[of t r h "text" ed1] by blast
next
  assume a: "transcribedLines t = no_lines \<and>
    (\<forall>l\<in>set (selection_lines (drop (length (calls t)) (calls (partials h texts t)))). 0 \<le> l)"
  obtain cs where cs: "calls (partials h texts t) = calls t @ cs"
    "transcribedLines (partials h texts t) =
       foldl track_line (transcribedLines t) (selection_lines cs)"
    using partials_track[of h texts t] by blast
  have d: "drop (length (calls t)) (calls (partials h texts t)) = cs"
    by (simp add: cs(1))
  have n: "\<forall>l\<in>set (selection_lines cs). 0 \<le> l" using a unfolding d by blast
  have e: "no_lines = span_of []" by (simp add: span_of_def)
  have "foldl track_line (span_of []) (selection_lines cs) = span_of ([] @ selection_lines cs)"
    using n by (intro foldl_track_line_span) simp_all
  then show "transcribedLines (partials h texts t) =
      span_of (selection_lines (drop (length (calls t)) (calls (partials h texts t))))"
    unfolding d cs(2) using a e by simp
qed

lemma opened_fields [simp]:
  "activeEditor opened = Some 0"
  "editors opened = (\<lambda>r. sample_editor)"
  "transcribedLines opened = no_lines"
  "calls opened = [Dispatch 0 transcriptionStart]"
  by (simp_all add: opened_def connecting_def sample_started)

lemma sample_editor_fields [simp]:
  "attached sample_editor"
  "anchor sample_editor = \<lparr>line = 3, ch = 0\<rparr>"
  "head sample_editor = \<lparr>line = 3, ch = 0\<rparr>"
  "doc sample_editor = [''a'', ''b'', ''c'', '''']"
  by (simp_all add: sample_editor_def)

lemma opened_partial:
  "websocket_onmessage plain_host ''PartialTranscript'' ''hi'' opened = recording"
proof -
  have rep: "replaceRange plain_host ''hi'' (getCursor_from plain_host (editors opened 0))
      (getCursor_to plain_host (editors opened 0)) (editors opened 0) =
      Some (sample_editor\<lparr>doc := [''a'', ''b'', ''c'', ''hi'']\<rparr>)"
    by (simp add: pos_le_def sample_typed)
  have con: "isConnected plain_host (editors opened 0)" by simp
  have "handlePartialTranscript plain_host ''hi'' opened = (None, recording)"
    unfolding handlePartial_live[OF opened_fields(1) con rep]
    by (simp add: pos_le_def opened_def connecting_def sample_started)
       (simp add: recording_def sample_transcriber_def
          new_transcriber_def track_line_def no_lines_def typed_editor_def sample_editor_def
          numeral_2_eq_2)
  then show ?thesis by (simp add: websocket_onmessage_def caught_def)
qed

theorem partial_selects_text_and_tracks_lines_witness:
  "handlePartialTranscript plain_host ''hi'' opened = (None, recording) \<and>
   anchor (editors recording 0) = \<lparr>line = 3, ch = 0\<rparr> \<and>
   head (editors recording 0) = \<lparr>line = 3, ch = 2\<rparr> \<and>
   transcribedLines (partials plain_host [''hi''] opened) = \<lparr>range_from = 3, range_to = 3\<rparr>"
proof -
  have p: "partials plain_host [''hi''] opened = recording"
    by (simp add: partials_def opened_partial)
  have s: "selection_lines (drop (length (calls opened)) (calls (partials plain_host [''hi''] opened))) = [3]"
    unfolding p by (simp add: recording_def)
  have a: "activeEditor opened = Some 0 \<and> isConnected plain_host (editors opened 0) \<and>
    replaceRange plain_host ''hi'' (getCursor_from plain_host (editors opened 0))
      (getCursor_to plain_host (editors opened 0)) (editors opened 0) =
      Some (sample_editor\<lparr>doc := [''a'', ''b'', ''c'', ''hi'']\<rparr>)"
    by (simp add: pos_le_def sample_typed)
  have b: "transcribedLines opened = no_lines \<and>
    (\<forall>l\<in>set (selection_lines (drop (length (calls opened))
        (calls (partials plain_host [''hi''] opened)))). 0 \<le> l)"
    unfolding s by simp
  have w: "websocket_onmessage plain_host ''PartialTranscript'' ''hi'' opened =
      caught (handlePartialTranscript plain_host ''hi'' opened)"
    by (simp add: websocket_onmessage_def)
  note inst = partial_selects_text_and_tracks_lines[of opened 0 plain_host "''hi''"
      "sample_editor\<lparr>doc := [''a'', ''b'', ''c'', ''hi'']\<rparr>" "[''hi'']"]
  from inst a have h: "fst (handlePartialTranscript plain_host ''hi'' opened) = None"
    by simp
  have r: "handlePartialTranscript plain_host ''hi'' opened = (None, recording)"
    using h opened_partial unfolding w
    by (cases "handlePartialTranscript plain_host ''hi'' opened") (simp add: caught_def)
  from inst b have "transcribedLines (partials plain_host [''hi''] opened) = span_of [3]"
    unfolding s by blast
  then show ?thesis using r by (simp add: span_of_def)
qed

text \<open>
  In the sample session the partial transcript \<open>hi\<close> arrives with the cursor at the start
  of line 3. Afterwards the selection runs from there to the end of the inserted text: it
  covers the text, it does not follow it.
\<close>

theorem partial_leaves_text_selected_counterexample:
  "getCursor_from plain_host
     (editors (run plain_host never_parses recording_session sample_transcriber) 0) =
     \<lparr>line = 3, ch = 0\<rparr> \<and>
   getCursor_to plain_host
     (editors (run plain_host never_parses recording_session sample_transcriber) 0) =
     \<lparr>line = 3, ch = 2\<rparr> \<and>
   doc (editors (run plain_host never_parses recording_session sample_transcriber) 0) =
     [''a'', ''b'', ''c'', ''hi'']"
  unfolding recording_reached by (simp add: pos_le_def)

end
